theory Spec2Isabelle
  imports Complex_Main "HOL-Library.Log_Nat" "HOL-Library.Multiset"
begin

section \<open>Connectome-convolutional network scripts: data handling and training control\<close>

text \<open>
  The two scripts \<^verbatim>\<open>ccnn_regr_baseline.py\<close> and \<^verbatim>\<open>ccnn_regr_public.py\<close> are embedded
  function by function. Arrays are lists (a tensor is the list of its instances along the
  first axis), every exception of the source is a value of \<open>py_error\<close>, and the random
  draws of numpy are arguments of the functions that make them.
\<close>

datatype py_error = ZeroDivisionError | ValueError | IndexError | KeyError

subsection \<open>Indexing\<close>

text \<open>
  \<^verbatim>\<open>a[lo:hi]\<close> along the first axis: a negative bound counts from the end, and both
  bounds are clipped to the array, so a slice never raises.
\<close>

definition py_clip :: "nat \<Rightarrow> int \<Rightarrow> nat" where
  "py_clip n i = (if i < 0 then nat (max (i + int n) 0) else min (nat i) n)"

definition py_slice :: "'a list \<Rightarrow> int \<Rightarrow> int \<Rightarrow> 'a list" where
  "py_slice xs lo hi = take (py_clip (length xs) hi - py_clip (length xs) lo)
                            (drop (py_clip (length xs) lo) xs)"

text \<open>
  \<^verbatim>\<open>a[permutation]\<close>: integer-array indexing with the non-negative indices that
  \<^verbatim>\<open>np.random.permutation\<close> returns; an index past the end raises IndexError.
\<close>

definition take_indices :: "'a list \<Rightarrow> nat list \<Rightarrow> py_error + 'a list" where
  "take_indices xs idx =
     (if list_all (\<lambda>i. i < length xs) idx then Inr (map (\<lambda>i. xs ! i) idx) else Inl IndexError)"

text \<open>What \<^verbatim>\<open>np.random.permutation(n)\<close> may return: a rearrangement of \<open>0, ..., n - 1\<close>.\<close>

definition is_permutation :: "nat \<Rightarrow> nat list \<Rightarrow> bool" where
  "is_permutation n p = (sort p = [0..<n])"

subsection \<open>Epoch shuffler\<close>

text \<open>
  \<^verbatim>\<open>
  def randomize_tensor(dataset, labels):
      permutation = np.random.permutation(labels.shape[0])
      shuffled_dataset = dataset[permutation,:,:,:]
      shuffled_labels = labels[permutation]
      return shuffled_dataset, shuffled_labels
  \<close>
  The permutation drawn for \<open>labels.shape[0]\<close> is the first argument.
\<close>

definition randomize_tensor :: "nat list \<Rightarrow> 'd list \<Rightarrow> 'l list \<Rightarrow> py_error + ('d list \<times> 'l list)" where
  "randomize_tensor permutation dataset labels =
     (case take_indices dataset permutation of
        Inl e \<Rightarrow> Inl e
      | Inr shuffled_dataset \<Rightarrow>
          (case take_indices labels permutation of
             Inl e \<Rightarrow> Inl e
           | Inr shuffled_labels \<Rightarrow> Inr (shuffled_dataset, shuffled_labels)))"

subsection \<open>Training loop\<close>

text \<open>
  \<^verbatim>\<open>offset = (step * batch_size) % (train_labels.shape[0] - batch_size)\<close>
  on Python integers: \<open>%\<close> by zero raises, and otherwise takes the sign of the divisor,
  as \<open>mod\<close> on \<open>int\<close> does.
\<close>

definition offset :: "int \<Rightarrow> int \<Rightarrow> int \<Rightarrow> py_error + int" where
  "offset step batch_size num_train =
     (if num_train - batch_size = 0 then Inl ZeroDivisionError
      else Inr ((step * batch_size) mod (num_train - batch_size)))"

text \<open>
  The state of the loop: the training arrays, which a re-shuffle replaces, and the
  variables of the session, which only the optimizer changes. What one step did is
  recorded in a \<open>step_info\<close>.
\<close>

record ('d, 'l, 'v) loop_state =
  train_data :: "'d list"
  train_labels :: "'l list"
  variables :: "'v"

record ('d, 'l) step_info =
  step_offset :: int
  shuffled :: bool
  batch_data :: "'d list"
  batch_labels :: "'l list"

text \<open>
  One iteration of \<^verbatim>\<open>for step in range(num_steps)\<close>. The placeholders have the fixed
  shape \<^verbatim>\<open>(batch_size, ...)\<close>, so feeding a batch of another length raises ValueError.
  \<open>optimizer\<close> stands for \<^verbatim>\<open>session.run([optimizer, loss, train_prediction], ...)\<close>, and
  \<open>draw step\<close> is the permutation numpy would draw at that step.
\<close>

definition training_step ::
  "nat \<Rightarrow> ('v \<Rightarrow> 'd list \<Rightarrow> 'l list \<Rightarrow> 'v) \<Rightarrow> (nat \<Rightarrow> nat list) \<Rightarrow> nat \<Rightarrow>
   ('d, 'l, 'v) loop_state \<Rightarrow> py_error + (('d, 'l, 'v) loop_state \<times> ('d, 'l) step_info)" where
  "training_step batch_size optimizer draw step s =
     (case offset (int step) (int batch_size) (int (length (train_labels s))) of
        Inl e \<Rightarrow> Inl e
      | Inr off \<Rightarrow>
          (case (if off = 0 then randomize_tensor (draw step) (train_data s) (train_labels s)
                 else Inr (train_data s, train_labels s)) of
             Inl e \<Rightarrow> Inl e
           | Inr (d, l) \<Rightarrow>
               (let bd = py_slice d off (off + int batch_size);
                    bl = py_slice l off (off + int batch_size)
                in if length bd \<noteq> batch_size \<or> length bl \<noteq> batch_size then Inl ValueError
                   else Inr (\<lparr>train_data = d, train_labels = l,
                              variables = optimizer (variables s) bd bl\<rparr>,
                             \<lparr>step_offset = off, shuffled = (off = 0),
                              batch_data = bd, batch_labels = bl\<rparr>))))"

fun training_loop ::
  "nat \<Rightarrow> ('v \<Rightarrow> 'd list \<Rightarrow> 'l list \<Rightarrow> 'v) \<Rightarrow> (nat \<Rightarrow> nat list) \<Rightarrow> nat \<Rightarrow>
   ('d, 'l, 'v) loop_state \<Rightarrow> py_error + (('d, 'l, 'v) loop_state \<times> ('d, 'l) step_info list)" where
  "training_loop batch_size optimizer draw 0 s = Inr (s, [])"
| "training_loop batch_size optimizer draw (Suc n) s =
     (case training_loop batch_size optimizer draw n s of
        Inl e \<Rightarrow> Inl e
      | Inr (s', infos) \<Rightarrow>
          (case training_step batch_size optimizer draw n s' of
             Inl e \<Rightarrow> Inl e
           | Inr (s'', info) \<Rightarrow> Inr (s'', infos @ [info])))"

subsection \<open>Subject-aware fold builder\<close>

text \<open>
  numpy arrays are objects: \<^verbatim>\<open>np.random.shuffle\<close> changes the caller's array, and
  \<^verbatim>\<open>reshape\<close> of a contiguous array returns a view on the same buffer. The buffers live
  in a heap, addressed by position; a new array is appended. A two-dimensional array
  is a view: the address of its buffer and its shape, read in row-major order.
\<close>

type_synonym heap = "int list list"

record view2d =
  base :: nat
  vrows :: nat
  vcols :: nat

text \<open>
  \<^verbatim>\<open>
  def create_train_and_test_folds(num_folds, subjects):
      n = np.ceil(len(subjects)/num_folds).astype(np.int)
      np.random.shuffle(subjects)
      if len(subjects) != n*num_folds:
          s = np.zeros(n*num_folds)
          s[:len(subjects)] = subjects
          subjects = s
      IDs = subjects.reshape((n, num_folds))
      return IDs
  \<close>
  \<open>subjects\<close> is the address of the caller's array and \<open>permutation\<close> the rearrangement
  that the shuffle draws. The division is the true division of Python 3, which is also
  what the specification's \<open>ceil(S/k)\<close> rows say; dividing by zero raises before anything
  is shuffled. The function returns the table and the heap it leaves behind.
\<close>

definition create_train_and_test_folds ::
  "nat \<Rightarrow> nat list \<Rightarrow> nat \<Rightarrow> heap \<Rightarrow> py_error + (view2d \<times> heap)" where
  "create_train_and_test_folds num_folds permutation subjects h =
     (if num_folds = 0 then Inl ZeroDivisionError
      else
        (let len = length (h ! subjects);
             n = nat \<lceil>real len / real num_folds\<rceil>;
             h1 = h[subjects := map (\<lambda>i. h ! subjects ! i) permutation]
         in if len \<noteq> n * num_folds
            then (if len \<le> n * num_folds
                  then Inr (\<lparr>base = length h1, vrows = n, vcols = num_folds\<rparr>,
                            h1 @ [h1 ! subjects @ replicate (n * num_folds - len) 0])
                  else Inl ValueError)
            else Inr (\<lparr>base = subjects, vrows = n, vcols = num_folds\<rparr>, h1)))"

text \<open>\<^verbatim>\<open>IDs[:, fold]\<close>: a column of the table; a column that is not there raises IndexError.\<close>

definition column :: "heap \<Rightarrow> view2d \<Rightarrow> nat \<Rightarrow> py_error + int list" where
  "column h v f =
     (if f < vcols v
      then Inr (map (\<lambda>r. h ! base v ! (r * vcols v + f)) [0..<vrows v])
      else Inl IndexError)"

subsection \<open>Floating-point values\<close>

text \<open>
  The entries of the tensors and the labels are IEEE binary64 numbers, numpy's
  \<^verbatim>\<open>float64\<close> (the labels come from \<^verbatim>\<open>np.loadtxt\<close>, and the tensor is cast to
  \<^verbatim>\<open>float32\<close> only after it has been normalized). A finite number is modelled by its
  real value, and the two infinities and not-a-number are values of their own. The two
  zeros are one value: they compare equal, and no divisor of these scripts can be a
  negative zero (the divisors are a count, a maximum of absolute values and a mean of
  squares).

  An arithmetic operation returns its exact result rounded to the nearest number of the
  format, a tie going to the even neighbour, and an infinity when the rounded result is
  out of range. A finite number of a binary format with \<open>p\<close> bits of precision and
  largest exponent \<open>emax\<close> is a multiple \<open>m / 2 ^ S\<close> of the smallest subnormal number,
  where \<open>S = emax + p - 2\<close> and \<open>\<bar>m\<bar> < 2 ^ (S + emax + 1)\<close>. Around \<open>x\<close> these numbers
  are \<open>2 ^ k\<close> smallest subnormals apart, \<open>k\<close> being the number of bits of
  \<open>\<lfloor>\<bar>x\<bar> * 2 ^ S\<rfloor>\<close> beyond \<open>p\<close>.
\<close>

datatype fl = Fin real | PInf | NInf | NaN

text \<open>The nearest integer, a tie going to the even one.\<close>

definition rne :: "real \<Rightarrow> int" where
  "rne y = (let f = \<lfloor>y\<rfloor>; d = y - of_int f
            in if d < 1 / 2 then f else if 1 / 2 < d then f + 1
               else if even f then f else f + 1)"

definition round_to :: "nat \<Rightarrow> nat \<Rightarrow> real \<Rightarrow> fl" where
  "round_to p emax x =
     (let S = emax + p - 2;
          s = x * 2 ^ S;
          k = nat (bitlen \<lfloor>\<bar>s\<bar>\<rfloor> - int p);
          m = rne (s / 2 ^ k) * 2 ^ k
      in if 2 ^ (S + emax + 1) \<le> \<bar>m\<bar> then (if 0 < x then PInf else NInf)
         else Fin (of_int m / 2 ^ S))"

text \<open>binary64 has 53 bits of precision and exponents up to 1023, binary32 has 24 and 127.\<close>

definition float64 :: "real \<Rightarrow> fl" where
  "float64 = round_to 53 1023"

definition float32 :: "real \<Rightarrow> fl" where
  "float32 = round_to 24 127"

fun fl_neg :: "fl \<Rightarrow> fl" where
  "fl_neg (Fin a) = Fin (- a)"
| "fl_neg PInf = NInf"
| "fl_neg NInf = PInf"
| "fl_neg NaN = NaN"

fun fl_add :: "fl \<Rightarrow> fl \<Rightarrow> fl" where
  "fl_add NaN y = NaN"
| "fl_add x NaN = NaN"
| "fl_add (Fin a) (Fin b) = float64 (a + b)"
| "fl_add (Fin a) y = y"
| "fl_add x (Fin b) = x"
| "fl_add PInf PInf = PInf"
| "fl_add NInf NInf = NInf"
| "fl_add PInf NInf = NaN"
| "fl_add NInf PInf = NaN"

definition fl_sub :: "fl \<Rightarrow> fl \<Rightarrow> fl" where
  "fl_sub x y = fl_add x (fl_neg y)"

fun fl_abs :: "fl \<Rightarrow> fl" where
  "fl_abs (Fin a) = Fin \<bar>a\<bar>"
| "fl_abs PInf = PInf"
| "fl_abs NInf = PInf"
| "fl_abs NaN = NaN"

text \<open>\<^verbatim>\<open>np.square\<close>\<close>

fun fl_square :: "fl \<Rightarrow> fl" where
  "fl_square (Fin a) = float64 (a * a)"
| "fl_square PInf = PInf"
| "fl_square NInf = PInf"
| "fl_square NaN = NaN"

text \<open>
  numpy does not raise on a division by zero of arrays or of its scalars: the quotient
  is an infinity or not-a-number.
\<close>

fun fl_div :: "fl \<Rightarrow> fl \<Rightarrow> fl" where
  "fl_div NaN y = NaN"
| "fl_div x NaN = NaN"
| "fl_div (Fin a) (Fin b) =
     (if b \<noteq> 0 then float64 (a / b) else if a = 0 then NaN else if 0 < a then PInf else NInf)"
| "fl_div (Fin a) y = Fin 0"
| "fl_div PInf (Fin b) = (if 0 \<le> b then PInf else NInf)"
| "fl_div NInf (Fin b) = (if 0 \<le> b then NInf else PInf)"
| "fl_div x y = NaN"

text \<open>The larger of two values as \<^verbatim>\<open>np.max\<close> takes it: not-a-number wins.\<close>

fun fl_max :: "fl \<Rightarrow> fl \<Rightarrow> fl" where
  "fl_max NaN y = NaN"
| "fl_max x NaN = NaN"
| "fl_max PInf y = PInf"
| "fl_max x PInf = PInf"
| "fl_max NInf y = y"
| "fl_max x NInf = x"
| "fl_max (Fin a) (Fin b) = Fin (max a b)"

text \<open>\<^verbatim>\<open>astype(np.float32)\<close> of one entry.\<close>

fun to_float32 :: "fl \<Rightarrow> fl" where
  "to_float32 (Fin a) = float32 a"
| "to_float32 x = x"

text \<open>
  \<^verbatim>\<open>np.sum\<close> of all entries of a contiguous array adds them in the order of numpy's
  pairwise summation: fewer than eight entries one after the other; up to 128 entries
  in eight interleaved partial sums (entry \<open>8 * i + j\<close> goes to partial sum \<open>j\<close>), which
  are then added in pairs, and the entries left over after the last full block of eight
  one after the other; more than 128 entries as the sum of the sums of two parts, the
  first of which is half of the array cut down to a multiple of eight. The result is
  added to the zero that the reduction starts from.
\<close>

definition lane :: "fl list \<Rightarrow> nat \<Rightarrow> fl" where
  "lane xs j = foldl fl_add (xs ! j) (map (\<lambda>i. xs ! (8 * i + j)) [1..<length xs div 8])"

function pairwise_sum :: "fl list \<Rightarrow> fl" where
  "pairwise_sum xs =
     (if length xs < 8 then foldl fl_add (Fin 0) xs
      else if length xs \<le> 128 then
        foldl fl_add
          (fl_add (fl_add (fl_add (lane xs 0) (lane xs 1)) (fl_add (lane xs 2) (lane xs 3)))
                  (fl_add (fl_add (lane xs 4) (lane xs 5)) (fl_add (lane xs 6) (lane xs 7))))
          (drop (length xs - length xs mod 8) xs)
      else fl_add (pairwise_sum (take (length xs div 2 - length xs div 2 mod 8) xs))
                  (pairwise_sum (drop (length xs div 2 - length xs div 2 mod 8) xs)))"
  by pat_completeness auto
termination
proof (relation "measure length")
  show "wf (measure length)" by simp
next
  fix xs :: "fl list"
  assume "\<not> length xs < 8" "\<not> length xs \<le> 128"
  then show "(take (length xs div 2 - length xs div 2 mod 8) xs, xs) \<in> measure length"
    by simp
next
  fix xs :: "fl list"
  assume a: "\<not> length xs < 8" "\<not> length xs \<le> 128"
  have "length xs div 2 mod 8 < 8" by simp
  moreover have "64 \<le> length xs div 2" using a by linarith
  ultimately have "0 < length xs div 2 - length xs div 2 mod 8" by linarith
  then show "(drop (length xs div 2 - length xs div 2 mod 8) xs, xs) \<in> measure length"
    using a by simp
qed

declare pairwise_sum.simps [simp del]

definition np_sum :: "fl list \<Rightarrow> fl" where
  "np_sum xs = fl_add (Fin 0) (pairwise_sum xs)"

text \<open>
  \<^verbatim>\<open>np.mean\<close> of all entries: the sum divided by the count, not-a-number for an empty
  array. \<^verbatim>\<open>np.max\<close> of all entries raises ValueError on an empty array.
\<close>

definition np_mean :: "fl list \<Rightarrow> fl" where
  "np_mean xs = fl_div (np_sum xs) (Fin (real (length xs)))"

fun np_max :: "fl list \<Rightarrow> py_error + fl" where
  "np_max [] = Inl ValueError"
| "np_max (x # xs) = Inr (fold fl_max xs x)"

subsection \<open>Tensor normalizer\<close>

text \<open>
  A tensor is the list of its instances, an instance the list of its entries.
  \<^verbatim>\<open>
  def normalize_tensor(data_tensor):
      data_tensor -= np.mean(data_tensor)
      data_tensor /= np.max(np.abs(data_tensor))
      return data_tensor
  \<close>
  The two updates are in place. Every caller either rebinds its name to the result
  or passes a copy made by boolean indexing, so the function is modelled by the tensor
  it returns.
\<close>

type_synonym tensor = "fl list list"

definition normalize_tensor :: "tensor \<Rightarrow> py_error + tensor" where
  "normalize_tensor data_tensor =
     (let m = np_mean (concat data_tensor);
          t1 = map (map (\<lambda>x. fl_sub x m)) data_tensor
      in case np_max (map fl_abs (concat t1)) of
           Inl e \<Rightarrow> Inl e
         | Inr d \<Rightarrow> Inr (map (map (\<lambda>x. fl_div x d)) t1))"

text \<open>
  The normalizer as the specification writes it, on real numbers:
  \<open>(tensor - mean(tensor)) / max(abs(tensor - mean(tensor)))\<close>.
\<close>

definition mean :: "real list \<Rightarrow> real" where
  "mean xs = sum_list xs / real (length xs)"

definition max_abs_dev :: "real list \<Rightarrow> real" where
  "max_abs_dev xs = Max ((\<lambda>x. \<bar>x - mean xs\<bar>) ` set xs)"

definition normalize_formula :: "real list list \<Rightarrow> real list list" where
  "normalize_formula t =
     map (map (\<lambda>x. (x - mean (concat t)) / max_abs_dev (concat t))) t"

subsection \<open>Coefficient of determination\<close>

text \<open>
  \<^verbatim>\<open>labels - predictions\<close> on two vectors of the same rank: elementwise when the
  lengths agree, broadcast when one of them has length one, ValueError otherwise.
\<close>

definition np_subtract :: "fl list \<Rightarrow> fl list \<Rightarrow> py_error + fl list" where
  "np_subtract xs ys =
     (if length xs = length ys then Inr (map (\<lambda>(x, y). fl_sub x y) (zip xs ys))
      else if length ys = 1 then Inr (map (\<lambda>x. fl_sub x (hd ys)) xs)
      else if length xs = 1 then Inr (map (\<lambda>y. fl_sub (hd xs) y) ys)
      else Inl ValueError)"

text \<open>
  \<^verbatim>\<open>
  def r_squared(labels, predictions):
      ss_res = np.mean(np.square(labels-predictions))
      ss_tot = np.mean(np.square(labels-np.mean(labels)))
      rsq = 1-(ss_res/ss_tot)
      return rsq
  \<close>
\<close>

definition r_squared :: "fl list \<Rightarrow> fl list \<Rightarrow> py_error + fl" where
  "r_squared labels predictions =
     (case np_subtract labels predictions of
        Inl e \<Rightarrow> Inl e
      | Inr res \<Rightarrow>
          (let ss_res = np_mean (map fl_square res);
               ss_tot = np_mean (map fl_square (map (\<lambda>y. fl_sub y (np_mean labels)) labels));
               rsq = fl_sub (Fin 1) (fl_div ss_res ss_tot)
           in Inr rsq))"

text \<open>
  R squared as the specification writes it, on real numbers:
  \<open>1 - mean((y - y')\<^sup>2) / mean((y - mean(y))\<^sup>2)\<close>; the denominator is the variance of
  the labels.
\<close>

definition variance :: "real list \<Rightarrow> real" where
  "variance ys = mean (map (\<lambda>y. (y - mean ys) * (y - mean ys)) ys)"

definition r_squared_formula :: "real list \<Rightarrow> real list \<Rightarrow> real" where
  "r_squared_formula ys ps =
     1 - mean (map (\<lambda>(y, p). (y - p) * (y - p)) (zip ys ps)) / variance ys"

subsection \<open>Fold dataset assembler\<close>

text \<open>
  \<^verbatim>\<open>a[mask]\<close> with a boolean mask along the first axis: a copy of the masked-in
  instances, IndexError when the mask has another length than the array.
  \<^verbatim>\<open>np.in1d(ar1, ar2)\<close> tells for each element of \<open>ar1\<close> whether it occurs in \<open>ar2\<close>.
\<close>

definition bool_index :: "'a list \<Rightarrow> bool list \<Rightarrow> py_error + 'a list" where
  "bool_index xs flags =
     (if length flags \<noteq> length xs then Inl IndexError
      else Inr (map fst (filter snd (zip xs flags))))"

definition in1d :: "int list \<Rightarrow> int list \<Rightarrow> bool list" where
  "in1d ar1 ar2 = map (\<lambda>x. x \<in> set ar2) ar1"

text \<open>\<^verbatim>\<open>astype(np.float32)\<close> of a tensor.\<close>

definition astype_float32 :: "tensor \<Rightarrow> tensor" where
  "astype_float32 t = map (map to_float32) t"

text \<open>
  \<^verbatim>\<open>
  def create_train_and_test_data(fold, IDs, subjects, labels, data_tensor):
      testIDs = np.in1d(subjects, IDs[:,fold])
      test_data = normalize_tensor(data_tensor[testIDs,:,:,:]).astype(np.float32)
      test_labels = labels[testIDs]
      train_data = normalize_tensor(data_tensor[~testIDs,:,:,:]).astype(np.float32)
      train_labels = labels[~testIDs]
      train_data, train_labels = randomize_tensor(train_data, train_labels)
      return train_data, train_labels, test_data, test_labels
  \<close>
  The table is read through the heap; \<open>permutation\<close> is the one drawn inside
  \<open>randomize_tensor\<close>.
\<close>

definition create_train_and_test_data ::
  "nat \<Rightarrow> heap \<Rightarrow> view2d \<Rightarrow> int list \<Rightarrow> 'l list \<Rightarrow> tensor \<Rightarrow> nat list \<Rightarrow>
   py_error + (tensor \<times> 'l list \<times> tensor \<times> 'l list)" where
  "create_train_and_test_data fold_index h IDs subjects labels data_tensor permutation =
     (case column h IDs fold_index of
        Inl e \<Rightarrow> Inl e
      | Inr col \<Rightarrow>
     (let testIDs = in1d subjects col in
      case bool_index data_tensor testIDs of
        Inl e \<Rightarrow> Inl e
      | Inr test_instances \<Rightarrow>
     (case normalize_tensor test_instances of
        Inl e \<Rightarrow> Inl e
      | Inr test_normalized \<Rightarrow>
     (case bool_index labels testIDs of
        Inl e \<Rightarrow> Inl e
      | Inr test_labels \<Rightarrow>
     (case bool_index data_tensor (map Not testIDs) of
        Inl e \<Rightarrow> Inl e
      | Inr train_instances \<Rightarrow>
     (case normalize_tensor train_instances of
        Inl e \<Rightarrow> Inl e
      | Inr train_normalized \<Rightarrow>
     (case bool_index labels (map Not testIDs) of
        Inl e \<Rightarrow> Inl e
      | Inr train_labels_unshuffled \<Rightarrow>
     (case randomize_tensor permutation (astype_float32 train_normalized)
             train_labels_unshuffled of
        Inl e \<Rightarrow> Inl e
      | Inr (shuffled_data, shuffled_labels) \<Rightarrow>
          Inr (shuffled_data, shuffled_labels,
               astype_float32 test_normalized, test_labels)))))))))"

text \<open>
  The baseline script before and at the head of its loop over the folds:
  \<^verbatim>\<open>
  data_tensor[np.isnan(data_tensor)] = 0
  data_tensor = normalize_tensor(data_tensor)
  ...
  for i in range(num_folds):
      train_data, train_labels, test_data, test_labels =
          create_train_and_test_data(i, IDs, subjects, labels, data_tensor)
  \<close>
  The whole tensor is normalized once, then each fold normalizes its two splits again.
\<close>

fun nan_to_zero :: "fl \<Rightarrow> fl" where
  "nan_to_zero NaN = Fin 0"
| "nan_to_zero x = x"

definition prepare_data :: "tensor \<Rightarrow> py_error + tensor" where
  "prepare_data data_tensor = normalize_tensor (map (map nan_to_zero) data_tensor)"

definition fold_datasets ::
  "nat \<Rightarrow> heap \<Rightarrow> view2d \<Rightarrow> int list \<Rightarrow> 'l list \<Rightarrow> tensor \<Rightarrow> nat list \<Rightarrow>
   py_error + (tensor \<times> 'l list \<times> tensor \<times> 'l list)" where
  "fold_datasets i h IDs subjects labels data_tensor permutation =
     (case prepare_data data_tensor of
        Inl e \<Rightarrow> Inl e
      | Inr normalized \<Rightarrow>
          create_train_and_test_data i h IDs subjects labels normalized permutation)"

text \<open>The test half and the train half of what a fold returns, or the exception.\<close>

definition test_data_of ::
  "py_error + (tensor \<times> 'l list \<times> tensor \<times> 'l list) \<Rightarrow> py_error + (tensor \<times> 'l list)" where
  "test_data_of r = (case r of Inl e \<Rightarrow> Inl e | Inr (tr, trl, te, tel) \<Rightarrow> Inr (te, tel))"

definition train_data_of ::
  "py_error + (tensor \<times> 'l list \<times> tensor \<times> 'l list) \<Rightarrow> py_error + (tensor \<times> 'l list)" where
  "train_data_of r = (case r of Inl e \<Rightarrow> Inl e | Inr (tr, trl, te, tel) \<Rightarrow> Inr (tr, trl))"

text \<open>The positions of the instances that a fold tests on and trains on.\<close>

definition test_positions :: "int list \<Rightarrow> int list \<Rightarrow> nat list" where
  "test_positions subjects col = filter (\<lambda>j. subjects ! j \<in> set col) [0..<length subjects]"

definition train_positions :: "int list \<Rightarrow> int list \<Rightarrow> nat list" where
  "train_positions subjects col = filter (\<lambda>j. subjects ! j \<notin> set col) [0..<length subjects]"

subsection \<open>Transfer variant: frozen convolutional layers\<close>

text \<open>
  \<^verbatim>\<open>ccnn_regr_public.py\<close>. A weight or bias array is its shape and its entries in
  row-major order, and a pickled parameter bundle is a dictionary from names to arrays.
\<close>

record ndarray =
  shape :: "nat list"
  entries :: "fl list"

text \<open>\<^verbatim>\<open>save['name']\<close> on a loaded dictionary raises KeyError for a missing name.\<close>

definition dict_get :: "(string \<rightharpoonup> 'a) \<Rightarrow> string \<Rightarrow> py_error + 'a" where
  "dict_get d k = (case d k of None \<Rightarrow> Inl KeyError | Some v \<Rightarrow> Inr v)"

text \<open>
  The graph is built on static shapes, and an operation whose operands do not fit raises
  ValueError while the graph is built. \<^verbatim>\<open>tf.nn.conv2d\<close> with unit strides and
  \<^verbatim>\<open>padding='VALID'\<close> wants a rank-4 input and a rank-4 filter with as many input
  channels as the input has, no larger than the input. Adding the biases broadcasts: the
  shapes are aligned at their last axes, and two extents fit when they are equal or one
  of them is 1. \<^verbatim>\<open>tf.matmul\<close> wants two matrices whose inner extents agree.
\<close>

definition conv2d_shape :: "nat list \<Rightarrow> nat list \<Rightarrow> py_error + nat list" where
  "conv2d_shape input filter_shape =
     (if length input = 4 \<and> length filter_shape = 4
         \<and> input ! 3 = filter_shape ! 2
         \<and> 0 < filter_shape ! 0 \<and> filter_shape ! 0 \<le> input ! 1
         \<and> 0 < filter_shape ! 1 \<and> filter_shape ! 1 \<le> input ! 2
      then Inr [input ! 0, input ! 1 - filter_shape ! 0 + 1,
                input ! 2 - filter_shape ! 1 + 1, filter_shape ! 3]
      else Inl ValueError)"

fun broadcast_reversed :: "nat list \<Rightarrow> nat list \<Rightarrow> py_error + nat list" where
  "broadcast_reversed [] ys = Inr ys"
| "broadcast_reversed (x # xs) [] = Inr (x # xs)"
| "broadcast_reversed (x # xs) (y # ys) =
     (case broadcast_reversed xs ys of
        Inl e \<Rightarrow> Inl e
      | Inr zs \<Rightarrow> if x = y \<or> y = 1 then Inr (x # zs)
                  else if x = 1 then Inr (y # zs)
                  else Inl ValueError)"

definition broadcast_shape :: "nat list \<Rightarrow> nat list \<Rightarrow> py_error + nat list" where
  "broadcast_shape a b =
     (case broadcast_reversed (rev a) (rev b) of Inl e \<Rightarrow> Inl e | Inr zs \<Rightarrow> Inr (rev zs))"

definition matmul_shape :: "nat list \<Rightarrow> nat list \<Rightarrow> py_error + nat list" where
  "matmul_shape a b =
     (if length a = 2 \<and> length b = 2 \<and> a ! 1 = b ! 0 then Inr [a ! 0, b ! 1]
      else Inl ValueError)"

text \<open>
  The shape of \<^verbatim>\<open>model(tf_train_dataset, keep_pr)\<close>, or the exception that building it
  raises:
  \<^verbatim>\<open>
  conv = tf.nn.conv2d(data, layer1_weights, [1, 1, 1, 1], padding='VALID')
  hidden = tf.nn.dropout(tf.nn.relu(conv+layer1_biases), keep_pr)
  conv = tf.nn.conv2d(hidden, layer2_weights, [1, 1, 1, 1], padding='VALID')
  hidden = tf.nn.dropout(tf.nn.relu(conv+layer2_biases), keep_pr)
  shape = hidden.get_shape().as_list()
  reshape = tf.reshape(hidden, [shape[0], shape[1] * shape[2] * shape[3]])
  hidden = tf.nn.dropout(tf.nn.relu(tf.matmul(reshape, layer3_weights) + layer3_biases), keep_pr)
  return tf.matmul(hidden, layer4_weights) + layer4_biases
  \<close>
  ReLU and dropout keep the shape; \<^verbatim>\<open>tf.reshape\<close> wants as many entries as it is given.
\<close>

definition model_shape ::
  "nat list \<Rightarrow> nat list \<Rightarrow> nat list \<Rightarrow> nat list \<Rightarrow> nat list \<Rightarrow>
   nat list \<Rightarrow> nat list \<Rightarrow> nat list \<Rightarrow> nat list \<Rightarrow> py_error + nat list" where
  "model_shape data w1 b1 w2 b2 w3 b3 w4 b4 =
     (case conv2d_shape data w1 of Inl e \<Rightarrow> Inl e | Inr conv1 \<Rightarrow>
     (case broadcast_shape conv1 b1 of Inl e \<Rightarrow> Inl e | Inr hidden1 \<Rightarrow>
     (case conv2d_shape hidden1 w2 of Inl e \<Rightarrow> Inl e | Inr conv2 \<Rightarrow>
     (case broadcast_shape conv2 b2 of Inl e \<Rightarrow> Inl e | Inr hidden2 \<Rightarrow>
     (if prod_list hidden2 \<noteq> hidden2 ! 0 * (hidden2 ! 1 * hidden2 ! 2 * hidden2 ! 3)
      then Inl ValueError
      else
     (case matmul_shape [hidden2 ! 0, hidden2 ! 1 * hidden2 ! 2 * hidden2 ! 3] w3 of
        Inl e \<Rightarrow> Inl e | Inr fc3 \<Rightarrow>
     (case broadcast_shape fc3 b3 of Inl e \<Rightarrow> Inl e | Inr hidden3 \<Rightarrow>
     (case matmul_shape hidden3 w4 of Inl e \<Rightarrow> Inl e | Inr fc4 \<Rightarrow>
        broadcast_shape fc4 b4))))))))"

text \<open>
  A node of the graph under the name the script gives it: a \<^verbatim>\<open>tf.constant\<close> with its
  value, or a variable with the value the session holds for it. The session also holds
  what the Adam optimizer keeps for itself.
\<close>

datatype node = Constant ndarray | Variable ndarray

fun node_value :: "node \<Rightarrow> ndarray" where
  "node_value (Constant v) = v"
| "node_value (Variable v) = v"

fun is_variable :: "node \<Rightarrow> bool" where
  "is_variable (Constant v) = False"
| "is_variable (Variable v) = True"

record 'o session =
  nodes :: "(string \<times> node) list"
  optimizer_slots :: "'o"

text \<open>\<^verbatim>\<open>tf.trainable_variables()\<close>: the names of the variables of the graph.\<close>

definition trainable_variables :: "(string \<times> node) list \<Rightarrow> string list" where
  "trainable_variables g = map fst (filter (\<lambda>(name, n). is_variable n) g)"

text \<open>\<^verbatim>\<open>tensor.eval()\<close> in the session: the value of the node of that name.\<close>

definition eval_node :: "(string \<times> node) list \<Rightarrow> string \<Rightarrow> py_error + ndarray" where
  "eval_node g name =
     (case map_of g name of None \<Rightarrow> Inl KeyError | Some n \<Rightarrow> Inr (node_value n))"

text \<open>
  \<^verbatim>\<open>session.run([optimizer, loss, train_prediction], feed_dict=feed_dict)\<close>, where
  \<^verbatim>\<open>optimizer = tf.train.AdamOptimizer(learning_rate).minimize(loss)\<close>. The numerical
  engine is the argument \<open>adam\<close>: from everything in the session and the batch it gives
  the new value of each variable and its own new state. \<^verbatim>\<open>minimize\<close> assigns to the
  trainable variables of the graph; a constant has no assignment.
\<close>

definition run_train_op ::
  "((string \<times> node) list \<Rightarrow> 'o \<Rightarrow> 'd list \<Rightarrow> 'l list \<Rightarrow> (string \<Rightarrow> ndarray \<Rightarrow> ndarray) \<times> 'o) \<Rightarrow>
   'o session \<Rightarrow> 'd list \<Rightarrow> 'l list \<Rightarrow> 'o session" where
  "run_train_op adam sess bd bl =
     (case adam (nodes sess) (optimizer_slots sess) bd bl of
        (new_value, new_slots) \<Rightarrow>
          \<lparr>nodes = map (\<lambda>(name, n). case n of
                                      Constant v \<Rightarrow> (name, Constant v)
                                    | Variable v \<Rightarrow> (name, Variable (new_value name v)))
                        (nodes sess),
           optimizer_slots = new_slots\<rparr>)"

text \<open>
  The script from loading to saving. \<open>weights_public\<close> is the content of
  \<^verbatim>\<open>weights_public.pickle\<close>, of which all eight arrays are read and the four of layers
  1 and 2 are used. The data tensor has the shape \<open>N # instance_shape\<close> and is given as
  the list of its \<open>N\<close> instances; \<open>xavier3\<close> and \<open>xavier4\<close> are the random initial
  weights of layers 3 and 4, whose biases start at 0.01 as a \<^verbatim>\<open>float32\<close>.

  The placeholders have the shapes \<open>(4, 111, 111, 1)\<close> and \<open>(4, 1)\<close>. The model is built
  on them, and \<^verbatim>\<open>tf.losses.mean_squared_error\<close> wants predictions of the shape of the
  labels. A tensor of another instance shape fails at step 0, after the offset has been
  computed and the training set shuffled: with fewer than four axes
  \<^verbatim>\<open>dataset[permutation,:,:,:]\<close> raises IndexError, otherwise the feed raises ValueError.

  The result is the dictionary written to \<^verbatim>\<open>weights_public_regr.pickle\<close>, in the order
  of its keys; writing the file itself is not modelled.
\<close>

definition ccnn_regr_public ::
  "(string \<rightharpoonup> ndarray) \<Rightarrow> nat list \<Rightarrow> tensor \<Rightarrow> 'l list \<Rightarrow> fl list \<Rightarrow> fl list \<Rightarrow> 'o \<Rightarrow>
   ((string \<times> node) list \<Rightarrow> 'o \<Rightarrow> fl list list \<Rightarrow> 'l list \<Rightarrow> (string \<Rightarrow> ndarray \<Rightarrow> ndarray) \<times> 'o) \<Rightarrow>
   (nat \<Rightarrow> nat list) \<Rightarrow> py_error + (string \<times> ndarray) list" where
  "ccnn_regr_public weights_public instance_shape data_tensor labels xavier3 xavier4 slots adam draw =
     (case dict_get weights_public ''layer1_weights'' of Inl e \<Rightarrow> Inl e | Inr layer1_weights_age \<Rightarrow>
     (case dict_get weights_public ''layer1_biases'' of Inl e \<Rightarrow> Inl e | Inr layer1_biases_age \<Rightarrow>
     (case dict_get weights_public ''layer2_weights'' of Inl e \<Rightarrow> Inl e | Inr layer2_weights_age \<Rightarrow>
     (case dict_get weights_public ''layer2_biases'' of Inl e \<Rightarrow> Inl e | Inr layer2_biases_age \<Rightarrow>
     (case dict_get weights_public ''layer3_weights'' of Inl e \<Rightarrow> Inl e | Inr layer3_weights_age \<Rightarrow>
     (case dict_get weights_public ''layer3_biases'' of Inl e \<Rightarrow> Inl e | Inr layer3_biases_age \<Rightarrow>
     (case dict_get weights_public ''layer4_weights'' of Inl e \<Rightarrow> Inl e | Inr layer4_weights_age \<Rightarrow>
     (case dict_get weights_public ''layer4_biases'' of Inl e \<Rightarrow> Inl e | Inr layer4_biases_age \<Rightarrow>
     (case prepare_data data_tensor of Inl e \<Rightarrow> Inl e | Inr normalized \<Rightarrow>
     (let batch_size = 4;
          num_labels = 1;
          image_size = 111;
          num_channels = 1;
          graph = [(''layer1_weights'', Constant layer1_weights_age),
                   (''layer1_biases'', Constant layer1_biases_age),
                   (''layer2_weights'', Constant layer2_weights_age),
                   (''layer2_biases'', Constant layer2_biases_age),
                   (''layer3_weights'', Variable \<lparr>shape = [256, 96], entries = xavier3\<rparr>),
                   (''layer3_biases'',
                      Variable \<lparr>shape = [96], entries = replicate 96 (float32 (1 / 100))\<rparr>),
                   (''layer4_weights'', Variable \<lparr>shape = [96, num_labels], entries = xavier4\<rparr>),
                   (''layer4_biases'',
                      Variable \<lparr>shape = [num_labels],
                                entries = replicate num_labels (float32 (1 / 100))\<rparr>)];
          num_steps = 10001
      in case model_shape [batch_size, image_size, image_size, num_channels]
                (shape layer1_weights_age) (shape layer1_biases_age)
                (shape layer2_weights_age) (shape layer2_biases_age)
                [256, 96] [96] [96, num_labels] [num_labels] of
           Inl e \<Rightarrow> Inl e
         | Inr predictions \<Rightarrow>
     (if predictions \<noteq> [batch_size, num_labels] then Inl ValueError
      else if instance_shape \<noteq> [image_size, image_size, num_channels]
      then (case offset 0 (int batch_size) (int (length labels)) of
              Inl e \<Rightarrow> Inl e
            | Inr off \<Rightarrow>
                (case randomize_tensor (draw 0) (astype_float32 normalized) labels of
                   Inl e \<Rightarrow> Inl e
                 | Inr first_epoch \<Rightarrow>
                     if length instance_shape < 3 then Inl IndexError else Inl ValueError))
      else
     (case training_loop batch_size (run_train_op adam) draw num_steps
             \<lparr>train_data = astype_float32 normalized, train_labels = labels,
              variables = \<lparr>nodes = graph, optimizer_slots = slots\<rparr>\<rparr> of
        Inl e \<Rightarrow> Inl e
      | Inr (s, infos) \<Rightarrow>
     (case eval_node (nodes (variables s)) ''layer1_weights'' of Inl e \<Rightarrow> Inl e | Inr layer1_weights_final \<Rightarrow>
     (case eval_node (nodes (variables s)) ''layer1_biases'' of Inl e \<Rightarrow> Inl e | Inr layer1_biases_final \<Rightarrow>
     (case eval_node (nodes (variables s)) ''layer2_weights'' of Inl e \<Rightarrow> Inl e | Inr layer2_weights_final \<Rightarrow>
     (case eval_node (nodes (variables s)) ''layer2_biases'' of Inl e \<Rightarrow> Inl e | Inr layer2_biases_final \<Rightarrow>
     (case eval_node (nodes (variables s)) ''layer3_weights'' of Inl e \<Rightarrow> Inl e | Inr layer3_weights_final \<Rightarrow>
     (case eval_node (nodes (variables s)) ''layer3_biases'' of Inl e \<Rightarrow> Inl e | Inr layer3_biases_final \<Rightarrow>
     (case eval_node (nodes (variables s)) ''layer4_weights'' of Inl e \<Rightarrow> Inl e | Inr layer4_weights_final \<Rightarrow>
     (case eval_node (nodes (variables s)) ''layer4_biases'' of Inl e \<Rightarrow> Inl e | Inr layer4_biases_final \<Rightarrow>
        Inr [(''layer1_weights'', layer1_weights_final),
             (''layer1_biases'', layer1_biases_final),
             (''layer2_weights'', layer2_weights_final),
             (''layer2_biases'', layer2_biases_final),
             (''layer3_weights'', layer3_weights_final),
             (''layer3_biases'', layer3_biases_final),
             (''layer4_weights'', layer4_weights_final),
             (''layer4_biases'', layer4_biases_final)]))))))))))))))))))))"

text \<open>
  A run of the transfer script, for the examples below: pretrained arrays of the shapes
  of the architecture, five instances of 111 by 111 entries, an identity shuffle, and an
  engine that overwrites every entry of whatever it is asked about.
\<close>

definition demo_weights :: "string \<rightharpoonup> ndarray" where
  "demo_weights = map_of
     [(''layer1_weights'', \<lparr>shape = [1, 111, 1, 64], entries = replicate 7104 (Fin 1)\<rparr>),
      (''layer1_biases'', \<lparr>shape = [64], entries = replicate 64 (Fin 2)\<rparr>),
      (''layer2_weights'', \<lparr>shape = [111, 1, 64, 256], entries = replicate 1818624 (Fin 3)\<rparr>),
      (''layer2_biases'', \<lparr>shape = [256], entries = replicate 256 (Fin 4)\<rparr>),
      (''layer3_weights'', \<lparr>shape = [256, 96], entries = replicate 24576 (Fin 5)\<rparr>),
      (''layer3_biases'', \<lparr>shape = [96], entries = replicate 96 (Fin 6)\<rparr>),
      (''layer4_weights'', \<lparr>shape = [96, 2], entries = replicate 192 (Fin 7)\<rparr>),
      (''layer4_biases'', \<lparr>shape = [2], entries = replicate 2 (Fin 8)\<rparr>)]"

definition demo_data :: tensor where
  "demo_data = map (\<lambda>i. replicate 12321 (Fin (real i))) [0..<5]"

definition demo_adam ::
  "(string \<times> node) list \<Rightarrow> unit \<Rightarrow> fl list list \<Rightarrow> int list \<Rightarrow> (string \<Rightarrow> ndarray \<Rightarrow> ndarray) \<times> unit" where
  "demo_adam g slots bd bl = (\<lambda>name v. v\<lparr>entries := map (\<lambda>x. Fin 9) (entries v)\<rparr>, ())"

section \<open>Properties\<close>

subsection \<open>Permutations and indexing\<close>

lemma is_permutation_mset: "is_permutation n p \<Longrightarrow> mset p = mset [0..<n]"
  unfolding is_permutation_def by (metis mset_sort)

lemma is_permutation_length: "is_permutation n p \<Longrightarrow> length p = n"
  using is_permutation_mset [of n p] by (metis length_upt mset_eq_length minus_nat.diff_0)

lemma is_permutation_set: "is_permutation n p \<Longrightarrow> set p = {0..<n}"
  using is_permutation_mset [of n p] by (metis mset_eq_setD set_upt)

lemma take_indices_permutation:
  "is_permutation (length xs) p \<Longrightarrow> take_indices xs p = Inr (map (\<lambda>i. xs ! i) p)"
  using is_permutation_set [of "length xs" p] by (simp add: take_indices_def list_all_iff)

lemma mset_map_nth_upt: "mset (map (\<lambda>i. xs ! i) [0..<length xs]) = mset xs"
  by (simp add: map_nth)

lemma mset_map_nth_permutation:
  assumes "is_permutation (length xs) p"
  shows "mset (map (\<lambda>i. xs ! i) p) = mset xs"
proof -
  have "mset (map (\<lambda>i. xs ! i) p) = image_mset (\<lambda>i. xs ! i) (mset p)" by simp
  also have "\<dots> = image_mset (\<lambda>i. xs ! i) (mset [0..<length xs])"
    using is_permutation_mset [OF assms] by simp
  also have "\<dots> = mset xs" using mset_map_nth_upt [of xs] by simp
  finally show ?thesis .
qed

subsection \<open>Epoch shuffler: the pairing survives\<close>

lemma zip_map_nth:
  assumes "length ds = length ls" "list_all (\<lambda>i. i < length ls) p"
  shows "zip (map (\<lambda>i. ds ! i) p) (map (\<lambda>i. ls ! i) p) = map (\<lambda>i. zip ds ls ! i) p"
  using assms by (induction p) simp_all

text \<open>
  Claim C8. When the dataset and the label vector have the same leading dimension \<open>N\<close>
  and numpy draws a permutation of \<open>[0, N)\<close>, \<open>randomize_tensor\<close> returns both arrays
  indexed by that one permutation, and the multiset of (data, label) pairs of the result
  is the multiset of the original pairs: every original pair appears exactly once.
\<close>

theorem randomize_tensor_preserves_pairs:
  assumes "length dataset = length labels"
    and "is_permutation (length labels) permutation"
  shows "\<exists>sd sl. randomize_tensor permutation dataset labels = Inr (sd, sl)
           \<and> sd = map (\<lambda>i. dataset ! i) permutation
           \<and> sl = map (\<lambda>i. labels ! i) permutation
           \<and> mset (zip sd sl) = mset (zip dataset labels)"
proof -
  have pd: "is_permutation (length dataset) permutation" using assms by simp
  have pz: "is_permutation (length (zip dataset labels)) permutation" using assms by simp
  have la: "list_all (\<lambda>i. i < length labels) permutation"
    using is_permutation_set [OF assms(2)] by (simp add: list_all_iff)
  have r: "randomize_tensor permutation dataset labels
             = Inr (map (\<lambda>i. dataset ! i) permutation, map (\<lambda>i. labels ! i) permutation)"
    by (simp add: randomize_tensor_def take_indices_permutation [OF pd]
        take_indices_permutation [OF assms(2)])
  have "mset (zip (map (\<lambda>i. dataset ! i) permutation) (map (\<lambda>i. labels ! i) permutation))
          = mset (zip dataset labels)"
    using zip_map_nth [OF assms(1) la] mset_map_nth_permutation [OF pz] by simp
  with r show ?thesis by simp
qed

theorem randomize_tensor_preserves_pairs_witness:
  "length [10, 20, 30 :: int] = length [''a'', ''b'', ''c''] \<and> is_permutation 3 [2, 0, 1]
   \<and> randomize_tensor [2, 0, 1] [10, 20, 30 :: int] [''a'', ''b'', ''c'']
        = Inr ([30, 10, 20], [''c'', ''a'', ''b''])
   \<and> mset (zip [30, 10, 20 :: int] [''c'', ''a'', ''b'']) = mset (zip [10, 20, 30] [''a'', ''b'', ''c''])"
proof -
  have p3: "is_permutation 3 [2, 0, 1]"
    by (simp add: is_permutation_def upt_rec)
  then have p: "is_permutation (length [''a'', ''b'', ''c'']) [2, 0, 1]"
    by (simp add: numeral_3_eq_3)
  have l: "length [10, 20, 30 :: int] = length [''a'', ''b'', ''c'']" by simp
  from randomize_tensor_preserves_pairs [OF l p]
  have "randomize_tensor [2, 0, 1] [10, 20, 30 :: int] [''a'', ''b'', ''c'']
          = Inr ([30, 10, 20], [''c'', ''a'', ''b''])
        \<and> mset (zip [30, 10, 20 :: int] [''c'', ''a'', ''b'']) = mset (zip [10, 20, 30] [''a'', ''b'', ''c''])"
    by simp
  with p3 show ?thesis by simp
qed

subsection \<open>One training step\<close>

lemma offset_in_range:
  assumes "batch_size < num_train"
  shows "offset step batch_size num_train = Inr ((step * batch_size) mod (num_train - batch_size))"
    and "0 \<le> (step * batch_size) mod (num_train - batch_size)"
    and "(step * batch_size) mod (num_train - batch_size) < num_train - batch_size"
  using assms by (simp_all add: offset_def)

lemma py_slice_contiguous:
  assumes "0 \<le> off" "nat off + b \<le> length xs"
  shows "py_slice xs off (off + int b) = take b (drop (nat off) xs)"
proof -
  have lo: "py_clip (length xs) off = nat off"
    using assms by (simp add: py_clip_def)
  have hi: "py_clip (length xs) (off + int b) = nat off + b"
    using assms by (simp add: py_clip_def nat_add_distrib)
  show ?thesis by (simp add: py_slice_def lo hi)
qed

lemma length_py_slice_le: "length (py_slice xs lo hi) \<le> length xs"
  by (simp add: py_slice_def)

lemma randomize_tensor_lengths:
  "randomize_tensor p d l = Inr (sd, sl) \<Longrightarrow> length sd = length p \<and> length sl = length p"
  by (auto simp: randomize_tensor_def take_indices_def split: sum.splits if_splits)

text \<open>What a step does when more than \<open>batch_size\<close> instances are there.\<close>

lemma training_step_ok:
  fixes s :: "('d, 'l, 'v) loop_state"
  assumes len: "length (train_data s) = length (train_labels s)"
    and perm: "is_permutation (length (train_labels s)) (draw step)"
    and big: "batch_size < length (train_labels s)"
  defines "off \<equiv> (int step * int batch_size) mod (int (length (train_labels s)) - int batch_size)"
  defines "d \<equiv> (if off = 0 then map (\<lambda>i. train_data s ! i) (draw step) else train_data s)"
  defines "l \<equiv> (if off = 0 then map (\<lambda>i. train_labels s ! i) (draw step) else train_labels s)"
  shows "training_step batch_size optimizer draw step s =
           Inr (\<lparr>train_data = d, train_labels = l,
                 variables = optimizer (variables s) (take batch_size (drop (nat off) d))
                                      (take batch_size (drop (nat off) l))\<rparr>,
                \<lparr>step_offset = off, shuffled = (off = 0),
                 batch_data = take batch_size (drop (nat off) d),
                 batch_labels = take batch_size (drop (nat off) l)\<rparr>)"
    and "0 \<le> off" and "off < int (length (train_labels s)) - int batch_size"
    and "length d = length (train_labels s)" and "length l = length (train_labels s)"
proof -
  let ?N = "length (train_labels s)"
  have big': "int batch_size < int ?N" using big by simp
  show off0: "0 \<le> off" and offN: "off < int ?N - int batch_size"
    unfolding off_def using offset_in_range(2,3) [OF big'] by simp_all
  have o: "offset (int step) (int batch_size) (int ?N) = Inr off"
    unfolding off_def using offset_in_range(1) [OF big'] by simp
  have pd: "is_permutation (length (train_data s)) (draw step)" using perm len by simp
  have r0: "off = 0 \<Longrightarrow>
      randomize_tensor (draw step) (train_data s) (train_labels s) = Inr (d, l)"
    by (simp add: d_def l_def randomize_tensor_def take_indices_permutation [OF pd]
        take_indices_permutation [OF perm])
  have r1: "off \<noteq> 0 \<Longrightarrow> train_data s = d \<and> train_labels s = l"
    by (simp add: d_def l_def)
  show ld: "length d = ?N" and ll: "length l = ?N"
    using is_permutation_length [OF perm] len by (simp_all add: d_def l_def)
  have fit: "nat off + batch_size \<le> ?N" using off0 offN by linarith
  have bd: "py_slice d off (off + int batch_size) = take batch_size (drop (nat off) d)"
    using py_slice_contiguous [OF off0, of batch_size d] fit ld by simp
  have bl: "py_slice l off (off + int batch_size) = take batch_size (drop (nat off) l)"
    using py_slice_contiguous [OF off0, of batch_size l] fit ll by simp
  have lbd: "length (take batch_size (drop (nat off) d)) = batch_size"
    using fit ld by simp
  have lbl: "length (take batch_size (drop (nat off) l)) = batch_size"
    using fit ll by simp
  show "training_step batch_size optimizer draw step s =
           Inr (\<lparr>train_data = d, train_labels = l,
                 variables = optimizer (variables s) (take batch_size (drop (nat off) d))
                                      (take batch_size (drop (nat off) l))\<rparr>,
                \<lparr>step_offset = off, shuffled = (off = 0),
                 batch_data = take batch_size (drop (nat off) d),
                 batch_labels = take batch_size (drop (nat off) l)\<rparr>)"
  proof (cases "off = 0")
    case True
    have "training_step batch_size optimizer draw step s =
            (let bd = py_slice d off (off + int batch_size);
                 bl = py_slice l off (off + int batch_size)
             in if length bd \<noteq> batch_size \<or> length bl \<noteq> batch_size then Inl ValueError
                else Inr (\<lparr>train_data = d, train_labels = l,
                           variables = optimizer (variables s) bd bl\<rparr>,
                          \<lparr>step_offset = off, shuffled = (off = 0),
                           batch_data = bd, batch_labels = bl\<rparr>))"
      by (simp only: training_step_def o sum.case if_P [OF True] r0 [OF True] prod.case)
    then show ?thesis by (simp only: bd bl lbd lbl Let_def) simp
  next
    case False
    have "training_step batch_size optimizer draw step s =
            (let bd = py_slice d off (off + int batch_size);
                 bl = py_slice l off (off + int batch_size)
             in if length bd \<noteq> batch_size \<or> length bl \<noteq> batch_size then Inl ValueError
                else Inr (\<lparr>train_data = d, train_labels = l,
                           variables = optimizer (variables s) bd bl\<rparr>,
                          \<lparr>step_offset = off, shuffled = (off = 0),
                           batch_data = bd, batch_labels = bl\<rparr>))"
      apply (simp only: training_step_def o sum.case if_not_P [OF False] prod.case)
      apply (simp only: r1 [OF False])
      done
    then show ?thesis by (simp only: bd bl lbd lbl Let_def) simp
  qed
qed

lemma training_step_Inr_D:
  assumes ok: "training_step batch_size optimizer draw step s = Inr (s', info)"
  shows "\<exists>off. (if off = 0 then randomize_tensor (draw step) (train_data s) (train_labels s)
                else Inr (train_data s, train_labels s)) = Inr (train_data s', train_labels s')
           \<and> length (py_slice (train_labels s') off (off + int batch_size)) = batch_size"
proof (cases "offset (int step) (int batch_size) (int (length (train_labels s)))")
  case (Inl e)
  with ok show ?thesis by (simp add: training_step_def)
next
  case (Inr off)
  let ?r = "if off = 0 then randomize_tensor (draw step) (train_data s) (train_labels s)
            else Inr (train_data s, train_labels s)"
  show ?thesis
  proof (cases ?r)
    case (Inl e)
    with ok Inr show ?thesis by (simp only: training_step_def sum.case) simp
  next
    case r: (Inr dl)
    obtain d l where dl: "dl = (d, l)" by (cases dl)
    let ?bd = "py_slice d off (off + int batch_size)"
    let ?bl = "py_slice l off (off + int batch_size)"
    have step: "training_step batch_size optimizer draw step s =
        (if length ?bd \<noteq> batch_size \<or> length ?bl \<noteq> batch_size then Inl ValueError
         else Inr (\<lparr>train_data = d, train_labels = l,
                    variables = optimizer (variables s) ?bd ?bl\<rparr>,
                   \<lparr>step_offset = off, shuffled = (off = 0),
                    batch_data = ?bd, batch_labels = ?bl\<rparr>))"
      by (simp only: training_step_def Inr sum.case r dl prod.case Let_def)
    show ?thesis
    proof (cases "length ?bd \<noteq> batch_size \<or> length ?bl \<noteq> batch_size")
      case True
      with ok step show ?thesis by simp
    next
      case False
      with ok step have s': "s' = \<lparr>train_data = d, train_labels = l,
                    variables = optimizer (variables s) ?bd ?bl\<rparr>" by simp
      have "train_data s' = d" "train_labels s' = l" by (simp_all add: s')
      with r dl False show ?thesis by (intro exI [of _ off]) simp
    qed
  qed
qed

lemma training_step_small:
  fixes s :: "('d, 'l, 'v) loop_state"
  assumes perm: "is_permutation (length (train_labels s)) (draw step)"
    and small: "length (train_labels s) \<le> batch_size"
  shows "\<exists>e. training_step batch_size optimizer draw step s = Inl e"
proof (cases "length (train_labels s) = batch_size")
  case True
  then show ?thesis by (simp add: training_step_def offset_def)
next
  case False
  with small have lt: "length (train_labels s) < batch_size" by simp
  show ?thesis
  proof (cases "training_step batch_size optimizer draw step s")
    case (Inl e)
    then show ?thesis by simp
  next
    case (Inr r)
    obtain s' info where "r = (s', info)" by (cases r)
    with Inr training_step_Inr_D [of batch_size optimizer draw step s s' info]
    obtain off where
      dl: "(if off = 0 then randomize_tensor (draw step) (train_data s) (train_labels s)
            else Inr (train_data s, train_labels s)) = Inr (train_data s', train_labels s')"
      and ok: "length (py_slice (train_labels s') off (off + int batch_size)) = batch_size"
      by blast
    have "length (train_labels s') = length (train_labels s)"
      using dl randomize_tensor_lengths [of "draw step" "train_data s" "train_labels s"
          "train_data s'" "train_labels s'"]
        is_permutation_length [OF perm] by (auto split: if_splits)
    with length_py_slice_le [of "train_labels s'" off "off + int batch_size"] ok lt
    show ?thesis by simp
  qed
qed

subsection \<open>Offsets and batch sizes\<close>

text \<open>
  Claim C10. A training step of either script goes through only when there are more
  training instances than \<open>batch_size\<close>. With exactly \<open>batch_size\<close> instances the
  modulus is zero and the offset computation raises ZeroDivisionError; with fewer, no
  batch of \<open>batch_size\<close> instances can be cut and the step fails as well. With more,
  the step returns, its offset lies in \<open>[0, num_train_instances - batch_size)\<close>, and
  the data batch and the label batch hold exactly \<open>batch_size\<close> instances each.
\<close>

theorem training_step_offset_safe:
  fixes s :: "('d, 'l, 'v) loop_state"
  assumes len: "length (train_data s) = length (train_labels s)"
    and perm: "is_permutation (length (train_labels s)) (draw step)"
  shows "(length (train_labels s) = batch_size \<longrightarrow>
            offset (int step) (int batch_size) (int (length (train_labels s))) = Inl ZeroDivisionError
            \<and> training_step batch_size optimizer draw step s = Inl ZeroDivisionError)
       \<and> (length (train_labels s) \<le> batch_size \<longrightarrow>
            (\<exists>e. training_step batch_size optimizer draw step s = Inl e))
       \<and> (batch_size < length (train_labels s) \<longrightarrow>
            (\<exists>s' info. training_step batch_size optimizer draw step s = Inr (s', info)
               \<and> offset (int step) (int batch_size) (int (length (train_labels s)))
                     = Inr (step_offset info)
               \<and> 0 \<le> step_offset info
               \<and> step_offset info < int (length (train_labels s)) - int batch_size
               \<and> length (batch_data info) = batch_size
               \<and> length (batch_labels info) = batch_size))"
proof (intro conjI impI)
  assume "length (train_labels s) = batch_size"
  then show "offset (int step) (int batch_size) (int (length (train_labels s))) = Inl ZeroDivisionError"
    by (simp add: offset_def)
next
  assume "length (train_labels s) = batch_size"
  then show "training_step batch_size optimizer draw step s = Inl ZeroDivisionError"
    by (simp add: training_step_def offset_def)
next
  assume "length (train_labels s) \<le> batch_size"
  then show "\<exists>e. training_step batch_size optimizer draw step s = Inl e"
    using training_step_small [where draw = draw and step = step, OF perm] by blast
next
  assume big: "batch_size < length (train_labels s)"
  let ?off = "(int step * int batch_size) mod (int (length (train_labels s)) - int batch_size)"
  note ok1 = training_step_ok(1) [where draw = draw and step = step and optimizer = optimizer,
      OF len perm big]
  note ok = training_step_ok(2-5) [where draw = draw and step = step, OF len perm big]
  have o: "offset (int step) (int batch_size) (int (length (train_labels s))) = Inr ?off"
    using big by (simp add: offset_def)
  have fit: "nat ?off + batch_size \<le> length (train_labels s)"
    using ok(1,2) by linarith
  show "\<exists>s' info. training_step batch_size optimizer draw step s = Inr (s', info)
               \<and> offset (int step) (int batch_size) (int (length (train_labels s)))
                     = Inr (step_offset info)
               \<and> 0 \<le> step_offset info
               \<and> step_offset info < int (length (train_labels s)) - int batch_size
               \<and> length (batch_data info) = batch_size
               \<and> length (batch_labels info) = batch_size"
    apply (rule exI, rule exI, rule conjI, rule ok1)
    using o ok fit by simp
qed


theorem training_step_offset_safe_witness:
  "training_step 2 (\<lambda>v d l. v) (\<lambda>k. [1, 0]) 3
      \<lparr>train_data = [10, 20 :: int], train_labels = [1, 2 :: int], variables = ()\<rparr>
     = Inl ZeroDivisionError
   \<and> (\<exists>s' info.
        training_step 2 (\<lambda>v d l. v) (\<lambda>k. [4, 2, 0, 1, 3]) 1
          \<lparr>train_data = [10, 20, 30, 40, 50 :: int], train_labels = [1, 2, 3, 4, 5 :: int],
           variables = ()\<rparr> = Inr (s', info)
        \<and> offset 1 2 5 = Inr (step_offset info) \<and> 0 \<le> step_offset info
        \<and> step_offset info < 3 \<and> length (batch_data info) = 2
        \<and> length (batch_labels info) = 2)"
proof -
  let ?s2 = "\<lparr>train_data = [10, 20 :: int], train_labels = [1, 2 :: int], variables = ()\<rparr>"
  let ?s5 = "\<lparr>train_data = [10, 20, 30, 40, 50 :: int], train_labels = [1, 2, 3, 4, 5 :: int],
              variables = ()\<rparr>"
  have p2: "is_permutation (length (train_labels ?s2)) ((\<lambda>k. [1, 0]) (3 :: nat))"
    by (simp add: is_permutation_def upt_rec)
  have p5: "is_permutation (length (train_labels ?s5)) ((\<lambda>k. [4, 2, 0, 1, 3]) (1 :: nat))"
    by (simp add: is_permutation_def upt_rec)
  have l2: "length (train_data ?s2) = length (train_labels ?s2)" by simp
  have l5: "length (train_data ?s5) = length (train_labels ?s5)" by simp
  from training_step_offset_safe [where draw = "\<lambda>k. [1, 0]" and step = 3 and batch_size = 2
      and optimizer = "\<lambda>v d l. v", OF l2 p2]
  have a: "training_step 2 (\<lambda>v d l. v) (\<lambda>k. [1, 0]) 3 ?s2 = Inl ZeroDivisionError"
    by simp
  from training_step_offset_safe [where draw = "\<lambda>k. [4, 2, 0, 1, 3]" and step = 1
      and batch_size = 2 and optimizer = "\<lambda>v d l. v", OF l5 p5]
  have b: "\<exists>s' info.
        training_step 2 (\<lambda>v d l. v) (\<lambda>k. [4, 2, 0, 1, 3]) 1 ?s5 = Inr (s', info)
        \<and> offset 1 2 5 = Inr (step_offset info) \<and> 0 \<le> step_offset info
        \<and> step_offset info < 3 \<and> length (batch_data info) = 2
        \<and> length (batch_labels info) = 2"
    by simp
  from a b show ?thesis by blast
qed

subsection \<open>The loop over steps\<close>

lemma training_loop_ok:
  fixes s :: "('d, 'l, 'v) loop_state"
  assumes big: "batch_size < N"
    and ld: "length (train_data s) = N" and ll: "length (train_labels s) = N"
    and perm: "\<And>k. is_permutation N (draw k)"
  shows "\<exists>s' infos. training_loop batch_size optimizer draw n s = Inr (s', infos)
           \<and> length (train_data s') = N \<and> length (train_labels s') = N
           \<and> map step_offset infos
               = map (\<lambda>k. (int k * int batch_size) mod (int N - int batch_size)) [0..<n]
           \<and> map shuffled infos
               = map (\<lambda>k. (int k * int batch_size) mod (int N - int batch_size) = 0) [0..<n]"
proof (induction n)
  case 0
  show ?case using ld ll by simp
next
  case (Suc n)
  then obtain s' infos where
    run: "training_loop batch_size optimizer draw n s = Inr (s', infos)"
    and ld': "length (train_data s') = N" and ll': "length (train_labels s') = N"
    and offs: "map step_offset infos
               = map (\<lambda>k. (int k * int batch_size) mod (int N - int batch_size)) [0..<n]"
    and shs: "map shuffled infos
               = map (\<lambda>k. (int k * int batch_size) mod (int N - int batch_size) = 0) [0..<n]"
    by blast
  have len: "length (train_data s') = length (train_labels s')" using ld' ll' by simp
  have p: "is_permutation (length (train_labels s')) (draw n)" using perm ll' by simp
  have b: "batch_size < length (train_labels s')" using big ll' by simp
  note st = training_step_ok(1) [where draw = draw and step = n and optimizer = optimizer,
      OF len p b]
  note ls = training_step_ok(4,5) [where draw = draw and step = n, OF len p b]
  show ?case
    apply (simp only: training_loop.simps run sum.case prod.case st)
    using ls ll' offs shs by simp
qed


lemma training_loop_first_epoch:
  fixes s :: "('d, 'l, 'v) loop_state"
  assumes big: "batch_size < N"
    and ld: "length (train_data s) = N" and ll: "length (train_labels s) = N"
    and perm: "\<And>k. is_permutation N (draw k)"
  defines "d0 \<equiv> map (\<lambda>i. train_data s ! i) (draw 0)"
  defines "l0 \<equiv> map (\<lambda>i. train_labels s ! i) (draw 0)"
  defines "off \<equiv> \<lambda>k. (int k * int batch_size) mod (int N - int batch_size)"
  shows "0 < n \<Longrightarrow> (\<And>k. 0 < k \<Longrightarrow> k < n \<Longrightarrow> off k \<noteq> 0) \<Longrightarrow>
         \<exists>s' infos. training_loop batch_size optimizer draw n s = Inr (s', infos)
           \<and> train_data s' = d0 \<and> train_labels s' = l0
           \<and> map batch_data infos = map (\<lambda>k. take batch_size (drop (nat (off k)) d0)) [0..<n]
           \<and> map batch_labels infos = map (\<lambda>k. take batch_size (drop (nat (off k)) l0)) [0..<n]"
proof (induction n)
  case 0
  then show ?case by simp
next
  case (Suc n)
  show ?case
  proof (cases "n = 0")
    case True
    have len: "length (train_data s) = length (train_labels s)" using ld ll by simp
    have p: "is_permutation (length (train_labels s)) (draw 0)" using perm ll by simp
    have b: "batch_size < length (train_labels s)" using big ll by simp
    note st = training_step_ok(1) [where draw = draw and step = 0 and optimizer = optimizer,
        OF len p b]
    show ?thesis
      apply (simp only: True training_loop.simps sum.case prod.case st)
      apply (simp add: d0_def l0_def off_def)
      done
  next
    case False
    then have pos: "0 < n" by simp
    have nz: "\<And>k. 0 < k \<Longrightarrow> k < n \<Longrightarrow> off k \<noteq> 0" using Suc.prems(2) by simp
    from Suc.IH [OF pos nz] obtain s' infos where
      run: "training_loop batch_size optimizer draw n s = Inr (s', infos)"
      and d': "train_data s' = d0" and l': "train_labels s' = l0"
      and bd: "map batch_data infos = map (\<lambda>k. take batch_size (drop (nat (off k)) d0)) [0..<n]"
      and bl: "map batch_labels infos = map (\<lambda>k. take batch_size (drop (nat (off k)) l0)) [0..<n]"
      by blast
    have ld0: "length d0 = N" and ll0: "length l0 = N"
      using is_permutation_length [OF perm [of 0]] by (simp_all add: d0_def l0_def)
    have len: "length (train_data s') = length (train_labels s')" using d' l' ld0 ll0 by simp
    have p: "is_permutation (length (train_labels s')) (draw n)" using perm l' ll0 by simp
    have b: "batch_size < length (train_labels s')" using big l' ll0 by simp
    have offn: "off n \<noteq> 0" using Suc.prems(2) [of n] pos by simp
    then have offn': "(int n * int batch_size) mod (int (length (train_labels s')) - int batch_size) \<noteq> 0"
      using l' ll0 by (simp add: off_def)
    note st = training_step_ok(1) [where draw = draw and step = n and optimizer = optimizer,
        OF len p b]
    show ?thesis
      apply (simp only: training_loop.simps run sum.case prod.case st)
      using offn' bd bl d' l' ll0 by (simp add: off_def)
  qed
qed

lemma concat_batches:
  "concat (map (\<lambda>k. take b (drop (k * b) xs)) [0..<n]) = take (n * b) xs"
proof (induction n)
  case 0
  show ?case by simp
next
  case (Suc n)
  have "take (Suc n * b) xs = take (n * b + b) xs" by (simp add: add.commute)
  also have "\<dots> = take (n * b) xs @ take b (drop (n * b) xs)" by (rule take_add)
  finally show ?case using Suc by simp
qed

lemma first_eight_batches:
  "concat (map (\<lambda>k. take 4 (drop (nat ((int k * int 4) mod (int 36 - int 4))) xs)) [0..<8])
     = take 32 xs"
proof -
  have eq: "\<And>k. k < 8 \<Longrightarrow> nat ((int k * int 4) mod (int 36 - int 4)) = k * 4"
    by (simp add: nat_mult_distrib)
  have m: "map (\<lambda>k. take 4 (drop (nat ((int k * int 4) mod (int 36 - int 4))) xs)) [0..<8]
          = map (\<lambda>k. take 4 (drop (k * 4) xs)) [0..<8]"
    by (rule map_cong [OF refl]) (simp only: eq set_upt atLeastLessThan_iff)
  have "concat (map (\<lambda>k. take 4 (drop (nat ((int k * int 4) mod (int 36 - int 4))) xs)) [0..<8])
          = concat (map (\<lambda>k. take 4 (drop (k * 4) xs)) [0..<8])"
    by (simp only: m)
  also have "\<dots> = take (8 * 4) xs" by (rule concat_batches)
  finally show ?thesis by simp
qed


lemma training_loop_Suc_D:
  assumes "training_loop batch_size optimizer draw (Suc n) s = Inr (s', infos)"
  shows "\<exists>s1 infos1 info. training_loop batch_size optimizer draw n s = Inr (s1, infos1)
           \<and> training_step batch_size optimizer draw n s1 = Inr (s', info)
           \<and> infos = infos1 @ [info]"
  using assms by (auto split: sum.splits)

lemma offsets_4_36:
  "map (\<lambda>k. (int k * int 4) mod (int 36 - int 4)) [0..<9] = [0, 4, 8, 12, 16, 20, 24, 28, 0]"
  "map (\<lambda>k. (int k * int 4) mod (int 36 - int 4) = 0) [0..<9]
     = [True, False, False, False, False, False, False, False, True]"
  by (simp_all add: upt_rec)

text \<open>
  The loop as the code has it. At every step the offset is
  \<open>(step * batch_size) mod (num_train_instances - batch_size)\<close>, the training set is
  re-shuffled exactly when that offset is 0 (so at step 0), and the batch is the
  contiguous run of \<open>batch_size\<close> instances at the offset of the (re-shuffled) training
  set. With \<open>batch_size = 4\<close> and 36 training instances the modulus is 32: the offsets
  of nine steps are 0, 4, ..., 28, 0, and the eight batches before the second shuffle
  are the first 32 instances of the training set as shuffled at step 0, each once.
\<close>

lemma training_loop_reshuffle:
  fixes s :: "('d, 'l, 'v) loop_state"
  assumes len: "length (train_data s) = length (train_labels s)"
    and perm: "\<forall>k. is_permutation (length (train_labels s)) (draw k)"
  shows "(batch_size < length (train_labels s) \<longrightarrow>
           (\<exists>s' info. training_step batch_size optimizer draw step s = Inr (s', info)
              \<and> step_offset info
                    = (int step * int batch_size) mod (int (length (train_labels s)) - int batch_size)
              \<and> shuffled info = (step_offset info = 0)
              \<and> train_data s' = (if step_offset info = 0
                                  then map (\<lambda>i. train_data s ! i) (draw step) else train_data s)
              \<and> train_labels s' = (if step_offset info = 0
                                  then map (\<lambda>i. train_labels s ! i) (draw step) else train_labels s)
              \<and> batch_data info = take batch_size (drop (nat (step_offset info)) (train_data s'))
              \<and> batch_labels info = take batch_size (drop (nat (step_offset info)) (train_labels s'))
              \<and> length (batch_data info) = batch_size))
       \<and> (length (train_labels s) = 36 \<longrightarrow>
           (\<exists>s' infos. training_loop 4 optimizer draw 9 s = Inr (s', infos)
              \<and> map step_offset infos = [0, 4, 8, 12, 16, 20, 24, 28, 0]
              \<and> map shuffled infos = [True, False, False, False, False, False, False, False, True]
              \<and> concat (map batch_data (take 8 infos))
                    = take 32 (map (\<lambda>i. train_data s ! i) (draw 0))
              \<and> concat (map batch_labels (take 8 infos))
                    = take 32 (map (\<lambda>i. train_labels s ! i) (draw 0))))"
proof (intro conjI impI)
  assume big: "batch_size < length (train_labels s)"
  have p: "is_permutation (length (train_labels s)) (draw step)" using perm by simp
  note st = training_step_ok(1) [where draw = draw and step = step and optimizer = optimizer,
      OF len p big]
  note bounds = training_step_ok(2-5) [where draw = draw and step = step, OF len p big]
  let ?off = "(int step * int batch_size) mod (int (length (train_labels s)) - int batch_size)"
  have fit: "nat ?off + batch_size \<le> length (train_labels s)"
    using bounds(1,2) by linarith
  show "\<exists>s' info. training_step batch_size optimizer draw step s = Inr (s', info)
              \<and> step_offset info = ?off
              \<and> shuffled info = (step_offset info = 0)
              \<and> train_data s' = (if step_offset info = 0
                                  then map (\<lambda>i. train_data s ! i) (draw step) else train_data s)
              \<and> train_labels s' = (if step_offset info = 0
                                  then map (\<lambda>i. train_labels s ! i) (draw step) else train_labels s)
              \<and> batch_data info = take batch_size (drop (nat (step_offset info)) (train_data s'))
              \<and> batch_labels info = take batch_size (drop (nat (step_offset info)) (train_labels s'))
              \<and> length (batch_data info) = batch_size"
    apply (rule exI, rule exI, rule conjI, rule st)
    using bounds(3) fit by simp
next
  assume n36: "length (train_labels s) = 36"
  have big: "(4::nat) < 36" by simp
  have ld: "length (train_data s) = 36" using len n36 by simp
  have pk: "\<And>k. is_permutation 36 (draw k)" using perm n36 by simp
  from training_loop_ok [where draw = draw and optimizer = optimizer and n = 9, OF big ld n36 pk]
  obtain s' infos where
    run9: "training_loop 4 optimizer draw 9 s = Inr (s', infos)"
    and offs: "map step_offset infos = map (\<lambda>k. (int k * int 4) mod (int 36 - int 4)) [0..<9]"
    and shs: "map shuffled infos = map (\<lambda>k. (int k * int 4) mod (int 36 - int 4) = 0) [0..<9]"
    by blast
  have nz: "\<And>k. 0 < k \<Longrightarrow> k < 8 \<Longrightarrow> (int k * int 4) mod (int 36 - int 4) \<noteq> 0"
    by simp
  have pos8: "(0::nat) < 8" by simp
  from training_loop_first_epoch [where draw = draw and optimizer = optimizer and n = 8,
      OF big ld n36 pk pos8 nz]
  obtain s8 infos8 where
    run8: "training_loop 4 optimizer draw 8 s = Inr (s8, infos8)"
    and bd: "map batch_data infos8
       = map (\<lambda>k. take 4 (drop (nat ((int k * int 4) mod (int 36 - int 4)))
                                 (map (\<lambda>i. train_data s ! i) (draw 0)))) [0..<8]"
    and bl: "map batch_labels infos8
       = map (\<lambda>k. take 4 (drop (nat ((int k * int 4) mod (int 36 - int 4)))
                                 (map (\<lambda>i. train_labels s ! i) (draw 0)))) [0..<8]"
    by blast
  have "length (map batch_data infos8) = 8" by (simp only: bd length_map) simp
  then have l8: "length infos8 = 8" by simp
  have "training_loop 4 optimizer draw (Suc 8) s = Inr (s', infos)" using run9 by simp
  from training_loop_Suc_D [OF this] run8 obtain info where "infos = infos8 @ [info]" by auto
  then have t8: "take 8 infos = infos8" using l8 by simp
  have cd: "concat (map batch_data (take 8 infos)) = take 32 (map (\<lambda>i. train_data s ! i) (draw 0))"
    by (simp only: t8 bd first_eight_batches)
  have cl: "concat (map batch_labels (take 8 infos)) = take 32 (map (\<lambda>i. train_labels s ! i) (draw 0))"
    by (simp only: t8 bl first_eight_batches)
  have o9: "map step_offset infos = [0, 4, 8, 12, 16, 20, 24, 28, 0]"
    using offs by (simp only: offsets_4_36)
  have s9: "map shuffled infos = [True, False, False, False, False, False, False, False, True]"
    using shs by (simp only: offsets_4_36)
  show "\<exists>s' infos. training_loop 4 optimizer draw 9 s = Inr (s', infos)
              \<and> map step_offset infos = [0, 4, 8, 12, 16, 20, 24, 28, 0]
              \<and> map shuffled infos = [True, False, False, False, False, False, False, False, True]
              \<and> concat (map batch_data (take 8 infos))
                    = take 32 (map (\<lambda>i. train_data s ! i) (draw 0))
              \<and> concat (map batch_labels (take 8 infos))
                    = take 32 (map (\<lambda>i. train_labels s ! i) (draw 0))"
    by (rule exI [of _ s'], rule exI [of _ infos]) (simp only: run9 o9 s9 cd cl simp_thms)
qed

lemma sort_rev_upt: "sort (rev [0..<n]) = [0..<n]"
  by (rule properties_for_sort) simp_all

text \<open>
  Claim C1. The loop's comment says that the order of the instances is randomized again
  once all training data has been seen at least once, and the claim has nine steps visit
  the nine disjoint batches of 36 instances before that. The code does otherwise. With
  \<open>batch_size = 4\<close> and 36 training instances, numbered 0 to 35, whose first shuffle
  reverses them: the offset of step 8 is 0 again and no step has the offset 32; step 8
  shuffles; and the eight batches before it are the instances 35 down to 4. The
  instances 0 to 3, at the positions 32 to 35 of the shuffled order, have been in no
  batch when the training set is shuffled again.
\<close>

theorem reshuffle_before_full_pass:
  "offset 8 4 36 = Inr 0
   \<and> \<not> distinct [offset 0 4 36, offset 1 4 36, offset 2 4 36, offset 3 4 36, offset 4 4 36,
                   offset 5 4 36, offset 6 4 36, offset 7 4 36, offset 8 4 36]
   \<and> Inr 32 \<notin> set [offset 0 4 36, offset 1 4 36, offset 2 4 36, offset 3 4 36, offset 4 4 36,
                       offset 5 4 36, offset 6 4 36, offset 7 4 36, offset 8 4 36]
   \<and> (\<exists>s' infos.
         training_loop 4 (\<lambda>v d l. v) (\<lambda>k. rev [0..<36]) 9
           \<lparr>train_data = [0..<36], train_labels = [0..<36], variables = ()\<rparr> = Inr (s', infos)
       \<and> map step_offset infos = [0, 4, 8, 12, 16, 20, 24, 28, 0]
       \<and> map shuffled infos = [True, False, False, False, False, False, False, False, True]
       \<and> concat (map batch_data (take 8 infos)) = rev [4..<36]
       \<and> concat (map batch_labels (take 8 infos)) = rev [4..<36]
       \<and> set (concat (map batch_data (take 8 infos))) \<inter> {0, 1, 2, 3} = {})"
proof -
  let ?s = "\<lparr>train_data = [0..<36], train_labels = [0..<36], variables = ()\<rparr>"
  have offs: "offset 8 4 36 = Inr 0
   \<and> \<not> distinct [offset 0 4 36, offset 1 4 36, offset 2 4 36, offset 3 4 36, offset 4 4 36,
                   offset 5 4 36, offset 6 4 36, offset 7 4 36, offset 8 4 36]
   \<and> Inr 32 \<notin> set [offset 0 4 36, offset 1 4 36, offset 2 4 36, offset 3 4 36, offset 4 4 36,
                       offset 5 4 36, offset 6 4 36, offset 7 4 36, offset 8 4 36]"
    by (simp add: offset_def)
  have len: "length (train_data ?s) = length (train_labels ?s)" by simp
  have perm: "\<forall>k::nat. is_permutation (length (train_labels ?s)) ((\<lambda>k. rev [0..<36]) k)"
    by (simp add: is_permutation_def sort_rev_upt)
  have n36: "length (train_labels ?s) = 36" by simp
  have id: "map (\<lambda>i. [0..<36] ! i) (rev [0..<36]) = rev [0..<36]"
    by (rule map_idI) simp
  have "take 32 (rev [0..<36]) = rev (drop 4 [0..<36])" by (simp add: take_rev)
  then have first: "take 32 (map (\<lambda>i. [0..<36] ! i) (rev [0..<36])) = rev [4..<36]"
    by (simp add: id)
  note ex = training_loop_reshuffle [where draw = "\<lambda>k. rev [0..<36]" and step = 0
      and batch_size = 4 and optimizer = "\<lambda>v d l. v", OF len perm,
      THEN conjunct2, rule_format, OF n36, unfolded loop_state.simps first]
  have none: "set (rev [4..<36 :: nat]) \<inter> {0, 1, 2, 3} = {}" by auto
  from ex have ex2: "\<exists>s' infos.
         training_loop 4 (\<lambda>v d l. v) (\<lambda>k. rev [0..<36]) 9 ?s = Inr (s', infos)
       \<and> map step_offset infos = [0, 4, 8, 12, 16, 20, 24, 28, 0]
       \<and> map shuffled infos = [True, False, False, False, False, False, False, False, True]
       \<and> concat (map batch_data (take 8 infos)) = rev [4..<36]
       \<and> concat (map batch_labels (take 8 infos)) = rev [4..<36]
       \<and> set (concat (map batch_data (take 8 infos))) \<inter> {0, 1, 2, 3} = {}"
    apply (elim exE conjE)
    subgoal for s' infos
      apply (rule exI [of _ s'], rule exI [of _ infos])
      apply (simp only: none simp_thms)
      done
    done
  from offs ex2 show ?thesis by (elim conjE) (intro conjI; assumption)
qed

subsection \<open>Fold builder: the table and the caller's array\<close>

lemma ceil_rows:
  assumes k: "0 < k"
  shows "len \<le> nat \<lceil>real len / real k\<rceil> * k"
proof -
  have "real len \<le> real_of_int \<lceil>real len / real k\<rceil> * real k"
    by (metis k le_of_int_ceiling of_nat_0_less_iff pos_divide_le_eq)
  moreover have "0 \<le> \<lceil>real len / real k\<rceil>"
  proof -
    have "0 \<le> real len / real k" by simp
    then show ?thesis by (simp only: zero_le_ceiling)
  qed
  ultimately have "real len \<le> real (nat \<lceil>real len / real k\<rceil> * k)" by simp
  then show ?thesis by linarith
qed

text \<open>What the builder returns, and the heap it leaves.\<close>

lemma create_folds_result:
  fixes permutation :: "nat list" and h :: heap
  assumes k: "0 < num_folds" and live: "subjects < length h"
  defines "len \<equiv> length (h ! subjects)"
  defines "n \<equiv> nat \<lceil>real len / real num_folds\<rceil>"
  defines "shuffled_subjects \<equiv> map (\<lambda>i. h ! subjects ! i) permutation"
  assumes perm: "is_permutation len permutation"
  shows "\<exists>v h'. create_train_and_test_folds num_folds permutation subjects h = Inr (v, h')
           \<and> vrows v = n \<and> vcols v = num_folds
           \<and> base v = (if len \<noteq> n * num_folds then length h else subjects)
           \<and> length h' = (if len \<noteq> n * num_folds then Suc (length h) else length h)
           \<and> h' ! subjects = shuffled_subjects
           \<and> (\<forall>b < length h. b \<noteq> subjects \<longrightarrow> h' ! b = h ! b)
           \<and> h' ! base v = shuffled_subjects @ replicate (n * num_folds - len) 0"
proof -
  have fit: "len \<le> n * num_folds" unfolding n_def by (rule ceil_rows [OF k])
  have ls: "length shuffled_subjects = len"
    using is_permutation_length [OF perm] by (simp add: shuffled_subjects_def)
  show ?thesis
  proof (cases "len = n * num_folds")
    case True
    then have "create_train_and_test_folds num_folds permutation subjects h
        = Inr (\<lparr>base = subjects, vrows = n, vcols = num_folds\<rparr>, h[subjects := shuffled_subjects])"
      using k by (simp add: create_train_and_test_folds_def Let_def len_def [symmetric]
          n_def [symmetric] shuffled_subjects_def)
    then show ?thesis using True live by simp
  next
    case False
    then have "create_train_and_test_folds num_folds permutation subjects h
        = Inr (\<lparr>base = length h, vrows = n, vcols = num_folds\<rparr>,
               h[subjects := shuffled_subjects]
                 @ [h[subjects := shuffled_subjects] ! subjects @ replicate (n * num_folds - len) 0])"
      using k fit by (simp add: create_train_and_test_folds_def Let_def len_def [symmetric]
          n_def [symmetric] shuffled_subjects_def)
    then show ?thesis using False live by (simp add: nth_append)
  qed
qed


lemma row_as_take:
  assumes "m + k \<le> length B"
  shows "map (\<lambda>f. B ! (m + f)) [0..<k] = take k (drop m B)"
proof (rule nth_equalityI)
  show "length (map (\<lambda>f. B ! (m + f)) [0..<k]) = length (take k (drop m B))"
    using assms by simp
next
  fix i assume "i < length (map (\<lambda>f. B ! (m + f)) [0..<k])"
  then show "map (\<lambda>f. B ! (m + f)) [0..<k] ! i = take k (drop m B) ! i"
    using assms by simp
qed

lemma mset_columns:
  "n * k \<le> length B \<Longrightarrow>
   mset (concat (map (\<lambda>f. map (\<lambda>r. B ! (r * k + f)) [0..<n]) [0..<k])) = mset (take (n * k) B)"
proof (induction n)
  case 0
  show ?case by (simp add: mset_concat) (induction k; simp)
next
  case (Suc n)
  then have le: "n * k \<le> length B" and le': "n * k + k \<le> length B" by simp_all
  have "mset (concat (map (\<lambda>f. map (\<lambda>r. B ! (r * k + f)) [0..<Suc n]) [0..<k]))
          = (\<Sum>f\<leftarrow>[0..<k]. mset (map (\<lambda>r. B ! (r * k + f)) [0..<n]) + {#B ! (n * k + f)#})"
    by (simp add: mset_concat comp_def)
  also have "\<dots> = (\<Sum>f\<leftarrow>[0..<k]. mset (map (\<lambda>r. B ! (r * k + f)) [0..<n]))
                    + (\<Sum>f\<leftarrow>[0..<k]. {#B ! (n * k + f)#})"
    by (rule sum_list_addf)
  also have "(\<Sum>f\<leftarrow>[0..<k]. mset (map (\<lambda>r. B ! (r * k + f)) [0..<n]))
               = mset (concat (map (\<lambda>f. map (\<lambda>r. B ! (r * k + f)) [0..<n]) [0..<k]))"
    by (simp add: mset_concat comp_def)
  also have "\<dots> = mset (take (n * k) B)" by (rule Suc.IH [OF le])
  also have "(\<Sum>f\<leftarrow>[0..<k]. {#B ! (n * k + f)#}) = mset (map (\<lambda>f. B ! (n * k + f)) [0..<k])"
    by (induction k) simp_all
  also have "\<dots> = mset (take k (drop (n * k) B))" by (simp only: row_as_take [OF le'])
  also have "mset (take (n * k) B) + mset (take k (drop (n * k) B)) = mset (take (n * k + k) B)"
    by (simp add: take_add)
  finally show ?case by (simp add: add.commute)
qed


lemma real_id_one_column:
  fixes sh :: "int list"
  assumes k: "0 < k" and fit: "length sh \<le> n * k"
    and d: "distinct sh" and nz: "0 \<notin> set sh" and x: "x \<in> set sh"
  defines "B \<equiv> sh @ replicate (n * k - length sh) 0"
  shows "\<exists>!f. f < k \<and> x \<in> set (map (\<lambda>r. B ! (r * k + f)) [0..<n])"
proof -
  from x obtain i where i: "i < length sh" and xi: "sh ! i = x" by (auto simp: in_set_conv_nth)
  have ink: "i < n * k" using i fit by simp
  have rn: "i div k < n" using ink k by (simp add: less_mult_imp_div_less)
  have "B ! (i div k * k + i mod k) = x" using i xi by (simp add: B_def nth_append)
  then have ex: "i mod k < k \<and> x \<in> set (map (\<lambda>r. B ! (r * k + i mod k)) [0..<n])"
    using rn k by force
  have uniq: "f = i mod k" if f: "f < k" and m: "x \<in> set (map (\<lambda>r. B ! (r * k + f)) [0..<n])" for f
  proof -
    from m obtain r where r: "r < n" and xr: "B ! (r * k + f) = x" by auto
    have x0: "x \<noteq> 0" using x nz by auto
    have "r * k + f < length sh"
    proof (rule ccontr)
      assume "\<not> r * k + f < length sh"
      moreover have "r * k + f < n * k"
      proof -
        have "r * k + f < r * k + k" using f by simp
        also have "\<dots> = Suc r * k" by simp
        also have "\<dots> \<le> n * k" using r by (intro mult_le_mono1) simp
        finally show ?thesis .
      qed
      ultimately have "B ! (r * k + f) = 0" by (simp add: B_def nth_append)
      with xr x0 show False by simp
    qed
    then have j: "r * k + f < length sh" and "sh ! (r * k + f) = x"
      using xr by (simp_all add: B_def nth_append)
    with d i xi have "r * k + f = i" by (metis nth_eq_iff_index_eq)
    then show ?thesis using f by auto
  qed
  show ?thesis by (rule ex1I [of _ "i mod k"]) (use ex uniq in blast)+
qed

text \<open>
  Claim C4. For a positive number of folds \<open>k\<close> and a caller's array of distinct
  non-zero subject ids, \<open>create_train_and_test_folds\<close> returns a table of
  \<open>ceil(S/k)\<close> rows and \<open>k\<close> columns whose columns partition the subject set: every
  subject id is in exactly one column, the non-zero entries of all columns together are
  exactly the subject ids, and all entries together are the subject ids, once each,
  and as many sentinel zeros as fill the table.
\<close>

theorem folds_partition:
  fixes h :: heap
  assumes k: "0 < num_folds" and live: "subjects < length h"
    and d: "distinct (h ! subjects)" and nz: "0 \<notin> set (h ! subjects)"
    and perm: "is_permutation (length (h ! subjects)) permutation"
  shows "\<exists>v h' cols. create_train_and_test_folds num_folds permutation subjects h = Inr (v, h')
      \<and> vrows v = nat \<lceil>real (length (h ! subjects)) / real num_folds\<rceil>
      \<and> vcols v = num_folds \<and> length cols = num_folds
      \<and> (\<forall>f<num_folds. column h' v f = Inr (cols ! f) \<and> length (cols ! f) = vrows v)
      \<and> (\<forall>x\<in>set (h ! subjects). \<exists>!f. f < num_folds \<and> x \<in> set (cols ! f))
      \<and> (\<Union>f<num_folds. set (cols ! f) - {0}) = set (h ! subjects)
      \<and> mset (concat cols) = mset (h ! subjects)
            + replicate_mset (vrows v * num_folds - length (h ! subjects)) 0"
proof -
  let ?xs = "h ! subjects"
  let ?n = "nat \<lceil>real (length ?xs) / real num_folds\<rceil>"
  let ?sh = "map (\<lambda>i. ?xs ! i) permutation"
  let ?B = "?sh @ replicate (?n * num_folds - length ?xs) 0"
  let ?col = "\<lambda>f. map (\<lambda>r. ?B ! (r * num_folds + f)) [0..<?n]"
  let ?cols = "map ?col [0..<num_folds]"
  from create_folds_result [OF k live perm, of ] obtain v h' where
    run: "create_train_and_test_folds num_folds permutation subjects h = Inr (v, h')"
    and vr: "vrows v = ?n" and vc: "vcols v = num_folds"
    and B: "h' ! base v = ?B"
    by blast
  have msh: "mset ?sh = mset ?xs" by (rule mset_map_nth_permutation [OF perm])
  then have ssh: "set ?sh = set ?xs" by (rule mset_eq_setD)
  have dsh: "distinct ?sh" using msh d by (metis mset_eq_imp_distinct_iff)
  have lsh: "length ?sh = length ?xs" using msh by (rule mset_eq_length)
  have fit: "length ?xs \<le> ?n * num_folds" by (rule ceil_rows [OF k])
  have lB: "length ?B = ?n * num_folds" using fit lsh by simp
  have colf: "\<forall>f<num_folds. column h' v f = Inr (?cols ! f) \<and> length (?cols ! f) = vrows v"
    by (simp add: column_def vc vr B)
  have one: "\<forall>x\<in>set ?xs. \<exists>!f. f < num_folds \<and> x \<in> set (?cols ! f)"
  proof
    fix x assume "x \<in> set ?xs"
    then have x: "x \<in> set ?sh" using ssh by simp
    have nzs: "0 \<notin> set ?sh" using nz ssh by simp
    have fit': "length ?sh \<le> ?n * num_folds" using fit lsh by simp
    from real_id_one_column [OF k fit' dsh nzs x]
    have "\<exists>!f. f < num_folds \<and> x \<in> set (?col f)" by (simp only: lsh)
    moreover have "\<And>f. (f < num_folds \<and> x \<in> set (?cols ! f)) = (f < num_folds \<and> x \<in> set (?col f))"
      by auto
    ultimately show "\<exists>!f. f < num_folds \<and> x \<in> set (?cols ! f)" by simp
  qed
  have mall: "mset (concat ?cols) = mset ?xs + replicate_mset (?n * num_folds - length ?xs) 0"
  proof -
    have tk: "take (?n * num_folds) ?B = ?B"
      by (rule take_all) (simp only: lB order_refl)
    have "mset (concat ?cols) = mset (take (?n * num_folds) ?B)"
      by (rule mset_columns) (simp only: lB order_refl)
    also have "\<dots> = mset ?B" by (simp only: tk)
    also have "\<dots> = mset ?xs + replicate_mset (?n * num_folds - length ?xs) 0"
      using msh by simp
    finally show ?thesis .
  qed
  have un: "(\<Union>f<num_folds. set (?cols ! f) - {0}) = set ?xs"
  proof -
    have "(\<Union>f<num_folds. set (?cols ! f)) = set (concat ?cols)" by auto
    also have "\<dots> = set_mset (mset (concat ?cols))" by simp
    also have "\<dots> = set ?xs \<union> set_mset (replicate_mset (?n * num_folds - length ?xs) 0)"
      by (simp only: mall set_mset_union set_mset_mset)
    finally have "(\<Union>f<num_folds. set (?cols ! f)) - {0} = set ?xs"
      using nz by (auto split: if_splits)
    then show ?thesis by blast
  qed
  show ?thesis
    apply (rule exI [of _ v], rule exI [of _ h'], rule exI [of _ ?cols])
    apply (intro conjI)
           apply (rule run)
          apply (rule vr)
         apply (rule vc)
        apply simp
       apply (rule colf)
      apply (rule one)
     apply (rule un)
    apply (simp only: vr mall)
    done
qed


theorem folds_partition_witness:
  "\<exists>v h' cols. create_train_and_test_folds 2 [2, 0, 1] 0 [[7, 8, 9]] = Inr (v, h')
      \<and> vrows v = 2 \<and> vcols v = 2 \<and> length cols = 2
      \<and> (\<forall>f<2. column h' v f = Inr (cols ! f) \<and> length (cols ! f) = vrows v)
      \<and> (\<forall>x\<in>set [7, 8, 9]. \<exists>!f. f < 2 \<and> x \<in> set (cols ! f))
      \<and> (\<Union>f<2. set (cols ! f) - {0}) = set [7, 8, 9]
      \<and> mset (concat cols) = mset [7, 8, 9] + replicate_mset (vrows v * 2 - length [7, 8, 9 :: int]) 0"
proof -
  have k: "(0::nat) < 2" by simp
  have live: "(0::nat) < length [[7, 8, 9 :: int]]" by simp
  have d: "distinct ([[7, 8, 9 :: int]] ! 0)" by simp
  have nz: "0 \<notin> set ([[7, 8, 9 :: int]] ! 0)" by simp
  have perm: "is_permutation (length ([[7, 8, 9 :: int]] ! 0)) [2, 0, 1]"
    by (simp add: is_permutation_def upt_rec)
  have c: "nat \<lceil>real (length ([[7, 8, 9 :: int]] ! 0)) / real (2::nat)\<rceil> = 2"
    by (simp add: ceiling_eq_iff)
  from folds_partition [OF k live d nz perm] show ?thesis
    unfolding c by simp
qed

text \<open>
  Claim C9. The builder shuffles the caller's array in place: after the call the
  buffer at the caller's address holds the subject ids rearranged by the permutation
  drawn, and no other buffer has changed. The table it returns is a new array when
  padding was needed, and a view on the caller's own buffer when it was not.
\<close>

theorem folds_shuffle_in_place:
  fixes h :: heap
  assumes k: "0 < num_folds" and live: "subjects < length h"
    and perm: "is_permutation (length (h ! subjects)) permutation"
  shows "\<exists>v h'. create_train_and_test_folds num_folds permutation subjects h = Inr (v, h')
      \<and> h' ! subjects = map (\<lambda>i. h ! subjects ! i) permutation
      \<and> mset (h' ! subjects) = mset (h ! subjects)
      \<and> (\<forall>b<length h. b \<noteq> subjects \<longrightarrow> h' ! b = h ! b)
      \<and> (length (h ! subjects) \<noteq> vrows v * num_folds \<longrightarrow>
             base v = length h \<and> base v \<noteq> subjects \<and> length h' = Suc (length h))
      \<and> (length (h ! subjects) = vrows v * num_folds \<longrightarrow>
             base v = subjects \<and> length h' = length h)"
proof -
  from create_folds_result [OF k live perm] obtain v h' where
    run: "create_train_and_test_folds num_folds permutation subjects h = Inr (v, h')"
    and vr: "vrows v = nat \<lceil>real (length (h ! subjects)) / real num_folds\<rceil>"
    and bv: "base v = (if length (h ! subjects) \<noteq> vrows v * num_folds then length h else subjects)"
    and lh: "length h' = (if length (h ! subjects) \<noteq> vrows v * num_folds
                          then Suc (length h) else length h)"
    and sh: "h' ! subjects = map (\<lambda>i. h ! subjects ! i) permutation"
    and rest: "\<forall>b<length h. b \<noteq> subjects \<longrightarrow> h' ! b = h ! b"
    by auto
  have m: "mset (h' ! subjects) = mset (h ! subjects)"
    by (simp only: sh mset_map_nth_permutation [OF perm])
  show ?thesis
    apply (rule exI [of _ v], rule exI [of _ h'])
    using run sh m rest bv lh live by auto
qed

theorem folds_shuffle_in_place_witness:
  "(\<exists>v h'. create_train_and_test_folds 2 [2, 0, 1] 0 [[7, 8, 9]] = Inr (v, h')
      \<and> h' ! 0 = [9, 7, 8] \<and> base v = 1 \<and> base v \<noteq> 0 \<and> length h' = 2)
   \<and> (\<exists>v h'. create_train_and_test_folds 3 [2, 0, 1] 0 [[7, 8, 9]] = Inr (v, h')
      \<and> h' ! 0 = [9, 7, 8] \<and> base v = 0 \<and> length h' = 1)"
proof -
  have k2: "(0::nat) < 2" and k3: "(0::nat) < 3" by simp_all
  have live: "(0::nat) < length [[7, 8, 9 :: int]]" by simp
  have perm: "is_permutation (length ([[7, 8, 9 :: int]] ! 0)) [2, 0, 1]"
    by (simp add: is_permutation_def upt_rec)
  from folds_shuffle_in_place [OF k2 live perm] obtain v h' where
    run: "create_train_and_test_folds 2 [2, 0, 1] 0 [[7, 8, 9]] = Inr (v, h')"
    and sh: "h' ! 0 = map (\<lambda>i. [[7, 8, 9]] ! 0 ! i) [2, 0, 1]"
    and pad: "length ([[7, 8, 9 :: int]] ! 0) \<noteq> vrows v * 2 \<longrightarrow>
             base v = length [[7, 8, 9 :: int]] \<and> base v \<noteq> 0
             \<and> length h' = Suc (length [[7, 8, 9 :: int]])"
    by blast
  have "length ([[7, 8, 9 :: int]] ! 0) \<noteq> vrows v * 2" by simp presburger
  with pad sh run have a: "\<exists>v h'. create_train_and_test_folds 2 [2, 0, 1] 0 [[7, 8, 9]] = Inr (v, h')
      \<and> h' ! 0 = [9, 7, 8] \<and> base v = 1 \<and> base v \<noteq> 0 \<and> length h' = 2"
    by simp
  from folds_shuffle_in_place [OF k3 live perm] obtain w g where
    run3: "create_train_and_test_folds 3 [2, 0, 1] 0 [[7, 8, 9]] = Inr (w, g)"
    and sh3: "g ! 0 = map (\<lambda>i. [[7, 8, 9]] ! 0 ! i) [2, 0, 1]"
    and nopad: "length ([[7, 8, 9 :: int]] ! 0) = vrows w * 3 \<longrightarrow>
             base w = 0 \<and> length g = length [[7, 8, 9 :: int]]"
    by blast
  have "vrows w = 1" using run3 by (simp add: create_train_and_test_folds_def Let_def split: if_splits) auto
  with nopad sh3 run3 have b: "\<exists>v h'. create_train_and_test_folds 3 [2, 0, 1] 0 [[7, 8, 9]] = Inr (v, h')
      \<and> h' ! 0 = [9, 7, 8] \<and> base v = 0 \<and> length h' = 1"
    by simp
  from a b show ?thesis by (rule conjI)
qed

subsection \<open>Rounding\<close>

lemma rne_of_int [simp]: "rne (of_int n) = n"
  by (simp add: rne_def)

lemma rne_small: "\<bar>y\<bar> \<le> 1 / 2 \<Longrightarrow> rne y = 0"
proof -
  assume a: "\<bar>y\<bar> \<le> 1 / 2"
  consider "y = - (1 / 2)" | "- (1 / 2) < y" "y < 0" | "0 \<le> y" "y < 1 / 2" | "y = 1 / 2"
    using a by fastforce
  then show ?thesis
  proof cases
    case 1
    have "\<lfloor>y\<rfloor> = - 1" unfolding 1 by (simp add: floor_eq_iff)
    then show ?thesis by (simp add: rne_def Let_def 1)
  next
    case 2
    have "\<lfloor>y\<rfloor> = - 1" using 2 by (simp add: floor_eq_iff)
    then show ?thesis using 2 by (simp add: rne_def Let_def)
  next
    case 3
    have "\<lfloor>y\<rfloor> = 0" using 3 by (simp add: floor_eq_iff)
    then show ?thesis using 3 by (simp add: rne_def Let_def)
  next
    case 4
    have "\<lfloor>y\<rfloor> = 0" unfolding 4 by (simp add: floor_eq_iff)
    then show ?thesis by (simp add: rne_def Let_def 4)
  qed
qed

text \<open>
  A number that is \<open>k * 2 ^ j\<close> smallest subnormals with \<open>\<bar>k\<bar> < 2 ^ p\<close> is rounded to
  itself, or to an infinity when it is out of range.
\<close>

lemma round_to_grid:
  assumes x: "x * 2 ^ (emax + p - 2) = of_int k * 2 ^ j" and k: "\<bar>k\<bar> < 2 ^ p"
  shows "round_to p emax x =
           (if 2 ^ (emax + p - 2 + emax + 1) \<le> \<bar>k\<bar> * 2 ^ j
            then (if 0 < x then PInf else NInf) else Fin x)"
proof -
  let ?S = "emax + p - 2"
  let ?n = "k * 2 ^ j"
  have s: "x * 2 ^ ?S = of_int ?n" using x by simp
  have fl: "\<lfloor>\<bar>real_of_int ?n\<bar>\<rfloor> = \<bar>?n\<bar>"
    by (simp only: of_int_abs [symmetric] floor_of_int)
  have "\<bar>?n\<bar> < 2 ^ (p + j)"
    using k by (simp add: abs_mult power_add)
  then have "\<bar>?n\<bar> < 2 ^ nat (int (p + j))" by (simp only: nat_int)
  then have "bitlen \<bar>?n\<bar> \<le> int (p + j)"
    by (simp only: bitlen_le_iff_power) simp
  then have kk: "nat (bitlen \<bar>?n\<bar> - int p) \<le> j" by simp
  define kk where "kk = nat (bitlen \<bar>?n\<bar> - int p)"
  have kkj: "kk \<le> j" using kk by (simp add: kk_def)
  have pw: "(2::int) ^ j = 2 ^ (j - kk) * 2 ^ kk"
    using kkj by (simp add: power_add [symmetric])
  have q: "of_int ?n / (2::real) ^ kk = of_int (k * 2 ^ (j - kk))"
    by (simp add: pw)
  have m: "rne (of_int ?n / 2 ^ kk) * 2 ^ kk = ?n"
    by (simp only: q rne_of_int) (simp add: pw)
  have xb: "of_int ?n / 2 ^ ?S = x"
    using s by (simp add: field_simps)
  have am: "\<bar>?n\<bar> = \<bar>k\<bar> * 2 ^ j" by (simp add: abs_mult)
  show ?thesis
    by (simp only: round_to_def Let_def s fl kk_def [symmetric] m xb) (simp only: am)
qed

text \<open>A number of at most half the smallest subnormal is rounded to zero.\<close>

lemma round_to_underflow:
  assumes "\<bar>x\<bar> * 2 ^ (emax + p - 2 + 1) \<le> 1"
  shows "round_to p emax x = Fin 0"
proof -
  let ?S = "emax + p - 2"
  have h: "\<bar>x * 2 ^ ?S\<bar> \<le> 1 / 2"
    using assms by (simp add: abs_mult)
  then have "\<lfloor>\<bar>x * 2 ^ ?S\<bar>\<rfloor> = 0" by (simp add: floor_eq_iff)
  then have k: "nat (bitlen \<lfloor>\<bar>x * 2 ^ ?S\<bar>\<rfloor> - int p) = 0" by simp
  have r: "rne (x * 2 ^ ?S) = 0" by (rule rne_small [OF h])
  show ?thesis
    unfolding round_to_def Let_def k by (simp add: r)
qed

lemma float64_grid:
  assumes "x * 2 ^ 1074 = of_int k * 2 ^ j" and "\<bar>k\<bar> < 2 ^ 53"
  shows "float64 x = (if 2 ^ 2098 \<le> \<bar>k\<bar> * 2 ^ j then (if 0 < x then PInf else NInf) else Fin x)"
  unfolding float64_def using round_to_grid [of x 1023 53 k j] assms by simp

lemma float32_grid:
  assumes "x * 2 ^ 149 = of_int k * 2 ^ j" and "\<bar>k\<bar> < 2 ^ 24"
  shows "float32 x = (if 2 ^ 277 \<le> \<bar>k\<bar> * 2 ^ j then (if 0 < x then PInf else NInf) else Fin x)"
  unfolding float32_def using round_to_grid [of x 127 24 k j] assms by simp

lemma small_times_power:
  fixes k :: int
  assumes "\<bar>k\<bar> < 2 ^ p" and "p + j \<le> n"
  shows "\<not> 2 ^ n \<le> \<bar>k\<bar> * 2 ^ j"
proof -
  have "\<bar>k\<bar> * 2 ^ j < 2 ^ p * (2::int) ^ j"
    using assms(1) by (intro mult_strict_right_mono) simp_all
  also have "\<dots> = 2 ^ (p + j)" by (simp only: power_add)
  also have "\<dots> \<le> 2 ^ n" using assms(2) by (intro power_increasing) simp_all
  finally show ?thesis by simp
qed

lemma divide_power_times_power:
  fixes a :: real
  assumes "i \<le> n"
  shows "a / 2 ^ i * 2 ^ n = a * 2 ^ (n - i)"
proof -
  have "(2::real) ^ n = 2 ^ (n - i) * 2 ^ i"
    using assms by (simp only: power_add [symmetric]) simp
  then show ?thesis by simp
qed

text \<open>Integers below \<open>2 ^ 53\<close> and their quotients by powers of two are binary64 numbers.\<close>

lemma float64_dyadic:
  assumes k: "\<bar>k\<bar> < 2 ^ 53" and i: "i \<le> 1074"
  shows "float64 (of_int k / 2 ^ i) = Fin (of_int k / 2 ^ i)"
proof -
  have x: "of_int k / 2 ^ i * (2::real) ^ 1074 = of_int k * 2 ^ (1074 - i)"
    by (rule divide_power_times_power [OF i])
  have "53 + (1074 - i) \<le> 2098" by simp
  from small_times_power [OF k this] float64_grid [OF x k]
  show ?thesis by (simp only: if_False)
qed

lemma float64_of_int:
  assumes "\<bar>k\<bar> < 2 ^ 53"
  shows "float64 (of_int k) = Fin (of_int k)"
  using float64_dyadic [OF assms, of 0] by simp

lemma float64_0 [simp]: "float64 0 = Fin 0"
  using float64_of_int [of 0] by simp

lemma float64_1 [simp]: "float64 1 = Fin 1"
  using float64_of_int [of 1] by simp

lemma float64_numeral:
  "numeral w < (2::int) ^ 53 \<Longrightarrow> float64 (numeral w) = Fin (numeral w)"
  using float64_of_int [of "numeral w"] by simp

lemma float64_neg_numeral:
  "numeral w < (2::int) ^ 53 \<Longrightarrow> float64 (- numeral w) = Fin (- numeral w)"
  using float64_of_int [of "- numeral w"] by simp

text \<open>So are the integers below \<open>2 ^ 53\<close> times a power of two, up to the largest exponent.\<close>

lemma float64_scaled:
  assumes k: "\<bar>k\<bar> < 2 ^ 53"
  shows "float64 (of_int k * 2 ^ i) =
           (if 2 ^ 2098 \<le> \<bar>k\<bar> * 2 ^ (i + 1074)
            then (if 0 < real_of_int k * 2 ^ i then PInf else NInf)
            else Fin (of_int k * 2 ^ i))"
proof -
  have x: "of_int k * 2 ^ i * (2::real) ^ 1074 = of_int k * 2 ^ (i + 1074)"
    by (simp add: power_add)
  from float64_grid [OF x k] show ?thesis .
qed

lemma float64_underflow:
  assumes "\<bar>x\<bar> * 2 ^ 1075 \<le> 1"
  shows "float64 x = Fin 0"
  unfolding float64_def using round_to_underflow [of x 1023 53] assms by simp

lemma float32_dyadic:
  assumes k: "\<bar>k\<bar> < 2 ^ 24" and i: "i \<le> 149"
  shows "float32 (of_int k / 2 ^ i) = Fin (of_int k / 2 ^ i)"
proof -
  have x: "of_int k / 2 ^ i * (2::real) ^ 149 = of_int k * 2 ^ (149 - i)"
    by (rule divide_power_times_power [OF i])
  have "24 + (149 - i) \<le> 277" by simp
  from small_times_power [OF k this] float32_grid [OF x k]
  show ?thesis by (simp only: if_False)
qed

lemma float32_of_int:
  assumes "\<bar>k\<bar> < 2 ^ 24"
  shows "float32 (of_int k) = Fin (of_int k)"
  using float32_dyadic [OF assms, of 0] by simp

subsection \<open>Sums, means and maxima\<close>

text \<open>
  Whatever holds of zero and of the entries and is kept by an addition holds of the sum,
  in whichever order numpy adds.
\<close>

lemma foldl_fl_add_closed:
  assumes add: "\<And>a b. P a \<Longrightarrow> P b \<Longrightarrow> P (fl_add a b)"
  shows "P a \<Longrightarrow> \<forall>x\<in>set xs. P x \<Longrightarrow> P (foldl fl_add a xs)"
  by (induction xs arbitrary: a) (simp_all add: add)

lemma lane_closed:
  assumes add: "\<And>a b. P a \<Longrightarrow> P b \<Longrightarrow> P (fl_add a b)"
    and all: "\<forall>x\<in>set xs. P x" and j: "j < 8" and len: "8 \<le> length xs"
  shows "P (lane xs j)"
proof -
  have a: "P (xs ! j)" using all j len by simp
  have "\<forall>x\<in>set (map (\<lambda>i. xs ! (8 * i + j)) [1..<length xs div 8]). P x"
  proof
    fix x assume "x \<in> set (map (\<lambda>i. xs ! (8 * i + j)) [1..<length xs div 8])"
    then obtain i where i: "i < length xs div 8" and x: "x = xs ! (8 * i + j)" by auto
    have "8 * i + j < length xs" using i j by linarith
    then show "P x" using all x by simp
  qed
  from foldl_fl_add_closed [of P, OF add a this] show ?thesis by (simp only: lane_def)
qed

lemma pairwise_sum_closed:
  assumes zero: "P (Fin 0)" and add: "\<And>a b. P a \<Longrightarrow> P b \<Longrightarrow> P (fl_add a b)"
  shows "\<forall>x\<in>set xs. P x \<Longrightarrow> P (pairwise_sum xs)"
proof (induction xs rule: pairwise_sum.induct)
  case (1 xs)
  show ?case
  proof (cases "length xs < 8")
    case True
    then have "pairwise_sum xs = foldl fl_add (Fin 0) xs" by (simp add: pairwise_sum.simps)
    with foldl_fl_add_closed [of P, OF add zero "1.prems"] show ?thesis by simp
  next
    case False
    show ?thesis
    proof (cases "length xs \<le> 128")
      case True
      have len: "8 \<le> length xs" using False by simp
      note l = lane_closed [of P, OF add "1.prems" _ len]
      have r: "P (fl_add (fl_add (fl_add (lane xs 0) (lane xs 1)) (fl_add (lane xs 2) (lane xs 3)))
                  (fl_add (fl_add (lane xs 4) (lane xs 5)) (fl_add (lane xs 6) (lane xs 7))))"
        by (intro add l) simp_all
      have t: "\<forall>x\<in>set (drop (length xs - length xs mod 8) xs). P x"
        using "1.prems" by (meson in_set_dropD)
      have "pairwise_sum xs = foldl fl_add
          (fl_add (fl_add (fl_add (lane xs 0) (lane xs 1)) (fl_add (lane xs 2) (lane xs 3)))
                  (fl_add (fl_add (lane xs 4) (lane xs 5)) (fl_add (lane xs 6) (lane xs 7))))
          (drop (length xs - length xs mod 8) xs)"
        using False True by (subst pairwise_sum.simps) simp
      with foldl_fl_add_closed [of P, OF add r t] show ?thesis by simp
    next
      case big: False
      let ?n2 = "length xs div 2 - length xs div 2 mod 8"
      have a: "P (pairwise_sum (take ?n2 xs))"
        using "1.IH"(1) [OF False big] "1.prems" by (meson in_set_takeD)
      have b: "P (pairwise_sum (drop ?n2 xs))"
        using "1.IH"(2) [OF False big] "1.prems" by (meson in_set_dropD)
      have "pairwise_sum xs = fl_add (pairwise_sum (take ?n2 xs)) (pairwise_sum (drop ?n2 xs))"
        using False big by (subst pairwise_sum.simps) simp
      with add [OF a b] show ?thesis by simp
    qed
  qed
qed

lemma np_sum_closed:
  assumes zero: "P (Fin 0)" and add: "\<And>a b. P a \<Longrightarrow> P b \<Longrightarrow> P (fl_add a b)"
    and all: "\<forall>x\<in>set xs. P x"
  shows "P (np_sum xs)"
  unfolding np_sum_def by (intro add zero pairwise_sum_closed [of P, OF zero add all])

text \<open>A sum of zeros is zero, and a sum of squares is not negative and is a number.\<close>

lemma np_sum_zeros: "\<forall>x\<in>set xs. x = Fin 0 \<Longrightarrow> np_sum xs = Fin 0"
  by (rule np_sum_closed [of "\<lambda>x. x = Fin 0"]) simp_all

text \<open>Fewer than eight entries are added one after the other.\<close>

lemma np_sum_short:
  "length xs < 8 \<Longrightarrow> np_sum xs = fl_add (Fin 0) (foldl fl_add (Fin 0) xs)"
  by (simp add: np_sum_def pairwise_sum.simps)

lemma np_mean_Nil: "np_mean [] = NaN"
  by (simp add: np_mean_def np_sum_short)

lemma np_mean_zeros:
  assumes "xs \<noteq> []" and "\<forall>x\<in>set xs. x = Fin 0"
  shows "np_mean xs = Fin 0"
  using assms by (simp add: np_mean_def np_sum_zeros)

lemma fold_fl_max_Fin: "fold fl_max (map Fin xs) (Fin a) = Fin (fold max xs a)"
  by (induction xs arbitrary: a) (simp_all add: max.commute)

lemma np_max_Fin: "xs \<noteq> [] \<Longrightarrow> np_max (map Fin xs) = Inr (Fin (Max (set xs)))"
proof (cases xs)
  case Nil
  assume "xs \<noteq> []" with Nil show ?thesis by simp
next
  case (Cons a as)
  have "Max (set (a # as)) = fold max as a" by (rule Max.set_eq_fold)
  with Cons show ?thesis by (simp add: fold_fl_max_Fin)
qed

lemma np_max_returns: "xs \<noteq> [] \<Longrightarrow> \<exists>d. np_max xs = Inr d"
  by (cases xs) simp_all

lemma np_max_Inl: "np_max xs = Inl e \<longleftrightarrow> xs = [] \<and> e = ValueError"
  by (cases xs) auto

subsection \<open>When the normalizer returns\<close>

lemma normalize_tensor_Inl:
  "normalize_tensor t = Inl e \<longleftrightarrow> concat t = [] \<and> e = ValueError"
proof -
  let ?a = "map fl_abs (concat (map (map (\<lambda>x. fl_sub x (np_mean (concat t)))) t))"
  have e: "?a = [] \<longleftrightarrow> concat t = []" by (simp add: map_concat)
  show ?thesis
  proof (cases ?a)
    case Nil
    have "normalize_tensor t = Inl ValueError"
      by (simp only: normalize_tensor_def Let_def Nil np_max.simps sum.case)
    moreover have "concat t = []" using e Nil by blast
    ultimately show ?thesis by auto
  next
    case (Cons a as)
    have "\<exists>r. normalize_tensor t = Inr r"
      by (simp only: normalize_tensor_def Let_def Cons np_max.simps sum.case) blast
    moreover have "concat t \<noteq> []" using e Cons by simp
    ultimately show ?thesis by auto
  qed
qed

lemma normalize_tensor_empty: "concat t = [] \<Longrightarrow> normalize_tensor t = Inl ValueError"
  using normalize_tensor_Inl [of t ValueError] by simp

lemma normalize_tensor_returns:
  "concat t \<noteq> [] \<Longrightarrow> \<exists>t'. normalize_tensor t = Inr t'"
  using normalize_tensor_Inl [of t] by (cases "normalize_tensor t") auto

lemma normalize_tensor_shape:
  assumes "normalize_tensor t = Inr t'"
  shows "map length t' = map length t" and "length t' = length t"
proof -
  from assms obtain m d where "t' = map (map (\<lambda>x. fl_div x d)) (map (map (\<lambda>x. fl_sub x m)) t)"
    by (auto simp: normalize_tensor_def Let_def split: sum.splits)
  then show "map length t' = map length t" and "length t' = length t"
    by simp_all
qed

lemma prepare_data_shape:
  assumes "prepare_data t = Inr t'"
  shows "length t' = length t" and "map length t' = map length t"
  using normalize_tensor_shape [OF assms [unfolded prepare_data_def]] by (simp_all add: comp_def)

lemma prepare_data_returns:
  "concat t \<noteq> [] \<Longrightarrow> \<exists>t'. prepare_data t = Inr t'"
  unfolding prepare_data_def by (rule normalize_tensor_returns) (simp add: map_concat)

subsection \<open>Tensor normalizer: the formula\<close>

lemma fl_sub_Fin: "fl_sub (Fin a) (Fin b) = float64 (a - b)"
  by (simp add: fl_sub_def)

lemma normalize_tensor_eq:
  assumes ne: "concat t \<noteq> []"
  shows "\<exists>d. np_max (map (\<lambda>x. fl_abs (fl_sub x (np_mean (concat t)))) (concat t)) = Inr d
           \<and> normalize_tensor t
               = Inr (map (map (\<lambda>x. fl_div (fl_sub x (np_mean (concat t))) d)) t)"
proof -
  let ?m = "np_mean (concat t)"
  have a: "map fl_abs (concat (map (map (\<lambda>x. fl_sub x ?m)) t))
             = map (\<lambda>x. fl_abs (fl_sub x ?m)) (concat t)"
    by (simp add: map_concat comp_def)
  from ne have "map (\<lambda>x. fl_abs (fl_sub x ?m)) (concat t) \<noteq> []" by simp
  from np_max_returns [OF this] obtain d where
    d: "np_max (map (\<lambda>x. fl_abs (fl_sub x ?m)) (concat t)) = Inr d" by blast
  have "normalize_tensor t = Inr (map (map (\<lambda>x. fl_div (fl_sub x ?m) d)) t)"
    by (simp only: normalize_tensor_def Let_def a d sum.case) (simp add: comp_def)
  with d show ?thesis by blast
qed

text \<open>
  Claim C6, as the code has it. On a tensor with at least one entry, \<open>normalize_tensor\<close>
  returns \<open>(tensor - mean(tensor)) / max(abs(tensor - mean(tensor)))\<close> as binary64
  arithmetic evaluates it: numpy's mean of all entries is subtracted from every entry
  first, and every difference is then divided by the largest absolute value of the
  differences, each operation rounding its result. On a tensor of finite entries that is
  the formula on real numbers whenever the maximum absolute deviation is not zero and
  nothing is lost to rounding: numpy's mean is the exact mean, and the exact differences
  and quotients are binary64 numbers.
\<close>

theorem normalize_tensor_formula:
  assumes ne: "concat t \<noteq> []"
  shows "(\<exists>d. np_max (map (\<lambda>x. fl_abs (fl_sub x (np_mean (concat t)))) (concat t)) = Inr d
            \<and> normalize_tensor t
                = Inr (map (map (\<lambda>x. fl_div (fl_sub x (np_mean (concat t))) d)) t))
       \<and> (t = map (map Fin) u
            \<and> np_mean (concat t) = Fin (mean (concat u))
            \<and> max_abs_dev (concat u) \<noteq> 0
            \<and> (\<forall>x\<in>set (concat u).
                  float64 (x - mean (concat u)) = Fin (x - mean (concat u))
                  \<and> float64 ((x - mean (concat u)) / max_abs_dev (concat u))
                      = Fin ((x - mean (concat u)) / max_abs_dev (concat u)))
          \<longrightarrow> normalize_tensor t = Inr (map (map Fin) (normalize_formula u)))"
proof (intro conjI impI)
  show "\<exists>d. np_max (map (\<lambda>x. fl_abs (fl_sub x (np_mean (concat t)))) (concat t)) = Inr d
            \<and> normalize_tensor t
                = Inr (map (map (\<lambda>x. fl_div (fl_sub x (np_mean (concat t))) d)) t)"
    by (rule normalize_tensor_eq [OF ne])
next
  let ?xs = "concat u"
  let ?m = "mean ?xs"
  let ?d = "max_abs_dev ?xs"
  assume h: "t = map (map Fin) u
            \<and> np_mean (concat t) = Fin ?m
            \<and> ?d \<noteq> 0
            \<and> (\<forall>x\<in>set ?xs. float64 (x - ?m) = Fin (x - ?m)
                  \<and> float64 ((x - ?m) / ?d) = Fin ((x - ?m) / ?d))"
  have t: "t = map (map Fin) u" using h by blast
  have m: "np_mean (concat t) = Fin ?m" using h by blast
  have d: "?d \<noteq> 0" using h by blast
  have ex: "\<And>x. x \<in> set ?xs \<Longrightarrow> float64 (x - ?m) = Fin (x - ?m)" using h by blast
  have eq: "\<And>x. x \<in> set ?xs \<Longrightarrow> float64 ((x - ?m) / ?d) = Fin ((x - ?m) / ?d)"
    using h by blast
  have c: "concat t = map Fin ?xs" by (simp add: t map_concat)
  have une: "?xs \<noteq> []" using ne c by simp
  have devs: "map (\<lambda>x. fl_abs (fl_sub x (Fin ?m))) (map Fin ?xs)
                = map Fin (map (\<lambda>x. \<bar>x - ?m\<bar>) ?xs)"
    by (simp add: comp_def fl_sub_Fin ex)
  have "map (\<lambda>x. \<bar>x - ?m\<bar>) ?xs \<noteq> []" using une by simp
  from np_max_Fin [OF this]
  have mx: "np_max (map Fin (map (\<lambda>x. \<bar>x - ?m\<bar>) ?xs)) = Inr (Fin ?d)"
    by (simp add: max_abs_dev_def)
  from normalize_tensor_eq [OF ne] obtain d' where
    d': "np_max (map (\<lambda>x. fl_abs (fl_sub x (np_mean (concat t)))) (concat t)) = Inr d'"
    and r: "normalize_tensor t
              = Inr (map (map (\<lambda>x. fl_div (fl_sub x (np_mean (concat t))) d')) t)"
    by blast
  have m': "np_mean (map Fin ?xs) = Fin ?m" using m by (simp only: c)
  from d' have "np_max (map (\<lambda>x. fl_abs (fl_sub x (Fin ?m))) (map Fin ?xs)) = Inr d'"
    by (simp only: c m')
  then have dd: "d' = Fin ?d" by (simp only: devs mx) simp
  have mt: "np_mean (concat (map (map Fin) u)) = Fin ?m" using m by (simp only: t)
  from r have "normalize_tensor t
              = Inr (map (map (\<lambda>x. fl_div (fl_sub x (Fin ?m)) (Fin ?d))) (map (map Fin) u))"
    by (simp only: t mt dd)
  then have r': "normalize_tensor t
              = Inr (map (map (\<lambda>x. fl_div (fl_sub (Fin x) (Fin ?m)) (Fin ?d))) u)"
    by (simp only: map_map comp_def)
  have "map (map (\<lambda>x. fl_div (fl_sub (Fin x) (Fin ?m)) (Fin ?d))) u
          = map (map Fin) (normalize_formula u)"
    unfolding normalize_formula_def map_map comp_def
  proof (intro map_cong refl)
    fix r x assume "r \<in> set u" "x \<in> set r"
    then have x: "x \<in> set ?xs" by auto
    show "fl_div (fl_sub (Fin x) (Fin ?m)) (Fin ?d) = Fin ((x - ?m) / ?d)"
      by (simp add: fl_sub_Fin ex [OF x] eq [OF x] d)
  qed
  with r' show "normalize_tensor t = Inr (map (map Fin) (normalize_formula u))" by simp
qed

theorem normalize_tensor_formula_witness:
  "concat [[Fin 1, Fin 3], [Fin 0, Fin 4]] \<noteq> []
   \<and> np_mean (concat [[Fin 1, Fin 3], [Fin 0, Fin 4]]) = Fin 2
   \<and> mean (concat [[1, 3], [0, 4]]) = 2
   \<and> max_abs_dev (concat [[1, 3], [0, 4]]) = 2
   \<and> normalize_formula [[1, 3], [0, 4]] = [[- (1 / 2), 1 / 2], [- 1, 1]]
   \<and> normalize_tensor [[Fin 1, Fin 3], [Fin 0, Fin 4]]
       = Inr [[Fin (- (1 / 2)), Fin (1 / 2)], [Fin (- 1), Fin 1]]"
proof -
  let ?t = "[[Fin 1, Fin 3], [Fin 0, Fin 4]]" and ?u = "[[1, 3], [0, 4 :: real]]"
  have ne: "concat ?t \<noteq> []" by simp
  have tu: "?t = map (map Fin) ?u" by simp
  have mu: "mean (concat ?u) = 2" by (simp add: mean_def)
  have du: "max_abs_dev (concat ?u) = 2" by (simp add: max_abs_dev_def mean_def)
  have mt: "np_mean (concat ?t) = Fin 2"
    by (simp add: np_mean_def np_sum_short float64_numeral)
  have h1: "float64 (1 / 2) = Fin (1 / 2)" using float64_dyadic [of 1 1] by simp
  have h2: "float64 (- (1 / 2)) = Fin (- (1 / 2))" using float64_dyadic [of "- 1" 1] by simp
  have h3: "float64 (- 1) = Fin (- 1)" using float64_of_int [of "- 1"] by simp
  have nf: "normalize_formula ?u = [[- (1 / 2), 1 / 2], [- 1, 1]]"
    by (simp add: normalize_formula_def mu du del: concat.simps)
  have exact: "\<forall>x\<in>set (concat ?u).
                  float64 (x - mean (concat ?u)) = Fin (x - mean (concat ?u))
                  \<and> float64 ((x - mean (concat ?u)) / max_abs_dev (concat ?u))
                      = Fin ((x - mean (concat ?u)) / max_abs_dev (concat ?u))"
    unfolding mu du by (simp add: float64_numeral float64_neg_numeral h1 h2 h3)
  have dz: "max_abs_dev (concat ?u) \<noteq> 0" by (simp only: du)
  have mt': "np_mean (concat ?t) = Fin (mean (concat ?u))" by (simp only: mt mu)
  from normalize_tensor_formula [OF ne, of ?u, THEN conjunct2, THEN mp,
      OF conjI [OF tu conjI [OF mt' conjI [OF dz exact]]]]
  have "normalize_tensor ?t = Inr [[Fin (- (1 / 2)), Fin (1 / 2)], [Fin (- 1), Fin 1]]"
    by (simp add: nf)
  with ne mt mu du nf show ?thesis by (intro conjI)
qed

text \<open>
  The formula on real numbers fails when the sum overflows: the four entries
  \<open>2 ^ 1023, 2 ^ 1023, - 2 ^ 1023, - 2 ^ 1023\<close> have mean 0 and maximum absolute deviation
  \<open>2 ^ 1023\<close>, so the formula gives \<open>1, 1, - 1, - 1\<close>; the sum of the first two is an
  infinity, so is numpy's mean, and every entry of the result is not-a-number.
\<close>

theorem normalize_overflow_counterexample:
  "max_abs_dev (concat [[2 ^ 1023, 2 ^ 1023], [- (2 ^ 1023), - (2 ^ 1023)]]) = 2 ^ 1023
   \<and> normalize_formula [[2 ^ 1023, 2 ^ 1023], [- (2 ^ 1023), - (2 ^ 1023)]] = [[1, 1], [- 1, - 1]]
   \<and> normalize_tensor [[Fin (2 ^ 1023), Fin (2 ^ 1023)], [Fin (- (2 ^ 1023)), Fin (- (2 ^ 1023))]]
       = Inr [[NaN, NaN], [NaN, NaN]]"
proof -
  define a :: real where "a = 2 ^ 1023"
  have pos: "0 < a" by (simp add: a_def)
  have m: "mean [a, a, - a, - a] = 0" by (simp add: mean_def)
  have s: "(\<lambda>x. \<bar>x - mean [a, a, - a, - a]\<bar>) ` set [a, a, - a, - a] = {a}"
    using pos by (auto simp: m)
  have d: "max_abs_dev [a, a, - a, - a] = a"
    unfolding max_abs_dev_def s by simp
  have f: "normalize_formula [[a, a], [- a, - a]] = [[1, 1], [- 1, - 1]]"
    using pos by (simp add: normalize_formula_def m d)
  have r1: "float64 a = Fin a"
    using float64_scaled [of 1 1023] by (simp add: a_def)
  have r2: "float64 (2 * a) = PInf"
  proof -
    have "2 * a = real_of_int 1 * 2 ^ 1024" by (simp add: a_def)
    with float64_scaled [of 1 1024] show ?thesis by simp
  qed
  have sum: "np_sum [Fin a, Fin a, Fin (- a), Fin (- a)] = PInf"
    by (simp add: np_sum_short r1 r2)
  have mean: "np_mean [Fin a, Fin a, Fin (- a), Fin (- a)] = PInf"
    by (simp add: np_mean_def sum)
  have n: "normalize_tensor [[Fin a, Fin a], [Fin (- a), Fin (- a)]]
             = Inr [[NaN, NaN], [NaN, NaN]]"
    by (simp add: normalize_tensor_def mean fl_sub_def)
  from d f n show ?thesis by (simp add: a_def)
qed

subsection \<open>Coefficient of determination: the formula and its fixed points\<close>

lemma fl_sub_self: "fl_sub (Fin a) (Fin a) = Fin 0"
  by (simp add: fl_sub_def)

lemma r_squared_eq:
  assumes len: "length ps = length ys"
  shows "r_squared ys ps =
           Inr (fl_sub (Fin 1)
                  (fl_div (np_mean (map (\<lambda>(y, p). fl_square (fl_sub y p)) (zip ys ps)))
                          (np_mean (map (\<lambda>y. fl_square (fl_sub y (np_mean ys))) ys))))"
proof -
  have s: "np_subtract ys ps = Inr (map (\<lambda>(y, p). fl_sub y p) (zip ys ps))"
    using len by (simp add: np_subtract_def)
  have a: "map fl_square (map (\<lambda>(y, p). fl_sub y p) (zip ys ps))
             = map (\<lambda>(y, p). fl_square (fl_sub y p)) (zip ys ps)"
    by (simp add: case_prod_unfold)
  have b: "map fl_square (map (\<lambda>y. fl_sub y (np_mean ys)) ys)
             = map (\<lambda>y. fl_square (fl_sub y (np_mean ys))) ys"
    by simp
  show ?thesis
    by (simp only: r_squared_def s sum.case Let_def a b)
qed

lemma r_squared_perfect:
  assumes fin: "\<forall>y\<in>set ys. \<exists>a. y = Fin a"
    and tot: "np_mean (map (\<lambda>y. fl_square (fl_sub y (np_mean ys))) ys) \<noteq> Fin 0"
             "np_mean (map (\<lambda>y. fl_square (fl_sub y (np_mean ys))) ys) \<noteq> NaN"
  shows "r_squared ys ys = Inr (Fin 1)"
proof -
  let ?tot = "np_mean (map (\<lambda>y. fl_square (fl_sub y (np_mean ys))) ys)"
  have ne: "ys \<noteq> []"
  proof
    assume "ys = []"
    then have "?tot = NaN" by (simp add: np_mean_Nil)
    with tot(2) show False by simp
  qed
  have z: "\<forall>x\<in>set (map (\<lambda>(y, p). fl_square (fl_sub y p)) (zip ys ys)). x = Fin 0"
  proof
    fix x assume "x \<in> set (map (\<lambda>(y, p). fl_square (fl_sub y p)) (zip ys ys))"
    then obtain y where y: "y \<in> set ys" and x: "x = fl_square (fl_sub y y)"
      by (auto simp: zip_same)
    from fin y obtain a where "y = Fin a" by blast
    then show "x = Fin 0" by (simp add: x fl_sub_self)
  qed
  have "map (\<lambda>(y, p). fl_square (fl_sub y p)) (zip ys ys) \<noteq> []" using ne by simp
  from np_mean_zeros [OF this z]
  have res: "np_mean (map (\<lambda>(y, p). fl_square (fl_sub y p)) (zip ys ys)) = Fin 0" .
  have q: "fl_div (Fin 0) ?tot = Fin 0"
    using tot by (cases ?tot) simp_all
  show ?thesis
    by (simp only: r_squared_eq [OF refl] res q) (simp add: fl_sub_def)
qed

lemma r_squared_mean:
  assumes tot: "np_mean (map (\<lambda>y. fl_square (fl_sub y (np_mean ys))) ys) = Fin v" and v: "v \<noteq> 0"
  shows "r_squared ys (replicate (length ys) (np_mean ys)) = Inr (Fin 0)"
proof -
  have z: "map (\<lambda>(y, p). fl_square (fl_sub y p)) (zip ys (replicate (length ys) (np_mean ys)))
             = map (\<lambda>y. fl_square (fl_sub y (np_mean ys))) ys"
    by (simp add: zip_replicate2)
  have l: "length (replicate (length ys) (np_mean ys)) = length ys" by simp
  show ?thesis
    by (simp only: r_squared_eq [OF l] z tot) (simp add: v fl_sub_def)
qed

lemma r_squared_negative: "r_squared [Fin 0, Fin 2] [Fin 2, Fin 0] = Inr (Fin (- 3))"
proof -
  have h: "float64 (- 2) = Fin (- 2)" "float64 (- 1) = Fin (- 1)" "float64 (- 3) = Fin (- 3)"
    using float64_of_int [of "- 2"] float64_of_int [of "- 1"] float64_of_int [of "- 3"]
    by simp_all
  have l: "length [Fin 2, Fin 0] = length [Fin 0, Fin 2]" by simp
  show ?thesis
    by (simp add: r_squared_eq [OF l] np_mean_def np_sum_short fl_sub_def
        float64_numeral h)
qed

text \<open>
  Claim C7, as the code has it. \<open>r_squared\<close> of predictions as many as the labels is
  \<open>1 - mean((y - y')\<^sup>2) / mean((y - mean(y))\<^sup>2)\<close> as binary64 arithmetic evaluates it,
  every operation rounding its result, and whatever its sign: nothing clamps it, and on
  the labels 0, 2 and the predictions 2, 0 it is \<open>- 3\<close>. When the labels are finite and
  the computed \<open>mean((y - mean(y))\<^sup>2)\<close> is a number other than zero, \<open>r_squared\<close> of the
  labels themselves is exactly 1; when it is finite and not zero, \<open>r_squared\<close> of
  predictions that all are the computed mean of the labels is exactly 0.
\<close>

theorem r_squared_values:
  "(length ps = length ys \<longrightarrow>
      r_squared ys ps =
        Inr (fl_sub (Fin 1)
               (fl_div (np_mean (map (\<lambda>(y, p). fl_square (fl_sub y p)) (zip ys ps)))
                       (np_mean (map (\<lambda>y. fl_square (fl_sub y (np_mean ys))) ys)))))
   \<and> ((\<forall>y\<in>set ys. \<exists>a. y = Fin a)
        \<and> np_mean (map (\<lambda>y. fl_square (fl_sub y (np_mean ys))) ys) \<noteq> Fin 0
        \<and> np_mean (map (\<lambda>y. fl_square (fl_sub y (np_mean ys))) ys) \<noteq> NaN
      \<longrightarrow> r_squared ys ys = Inr (Fin 1))
   \<and> ((\<exists>v. np_mean (map (\<lambda>y. fl_square (fl_sub y (np_mean ys))) ys) = Fin v \<and> v \<noteq> 0)
      \<longrightarrow> r_squared ys (replicate (length ys) (np_mean ys)) = Inr (Fin 0))
   \<and> r_squared [Fin 0, Fin 2] [Fin 2, Fin 0] = Inr (Fin (- 3))"
proof (intro conjI impI)
  assume "length ps = length ys"
  then show "r_squared ys ps =
        Inr (fl_sub (Fin 1)
               (fl_div (np_mean (map (\<lambda>(y, p). fl_square (fl_sub y p)) (zip ys ps)))
                       (np_mean (map (\<lambda>y. fl_square (fl_sub y (np_mean ys))) ys))))"
    by (rule r_squared_eq)
next
  assume "(\<forall>y\<in>set ys. \<exists>a. y = Fin a)
        \<and> np_mean (map (\<lambda>y. fl_square (fl_sub y (np_mean ys))) ys) \<noteq> Fin 0
        \<and> np_mean (map (\<lambda>y. fl_square (fl_sub y (np_mean ys))) ys) \<noteq> NaN"
  then show "r_squared ys ys = Inr (Fin 1)"
    using r_squared_perfect [of ys] by blast
next
  assume "\<exists>v. np_mean (map (\<lambda>y. fl_square (fl_sub y (np_mean ys))) ys) = Fin v \<and> v \<noteq> 0"
  then show "r_squared ys (replicate (length ys) (np_mean ys)) = Inr (Fin 0)"
    using r_squared_mean [of ys] by blast
next
  show "r_squared [Fin 0, Fin 2] [Fin 2, Fin 0] = Inr (Fin (- 3))"
    by (rule r_squared_negative)
qed

theorem r_squared_values_witness:
  "np_mean [Fin 0, Fin 2] = Fin 1
   \<and> np_mean (map (\<lambda>y. fl_square (fl_sub y (np_mean [Fin 0, Fin 2]))) [Fin 0, Fin 2]) = Fin 1
   \<and> r_squared [Fin 0, Fin 2] [Fin 1, Fin 3]
       = Inr (fl_sub (Fin 1) (fl_div (Fin 1) (Fin 1)))
   \<and> r_squared [Fin 0, Fin 2] [Fin 0, Fin 2] = Inr (Fin 1)
   \<and> r_squared [Fin 0, Fin 2] [Fin 1, Fin 1] = Inr (Fin 0)"
proof -
  let ?ys = "[Fin 0, Fin 2]"
  have h: "float64 (- 1) = Fin (- 1)" using float64_of_int [of "- 1"] by simp
  have m: "np_mean ?ys = Fin 1"
    by (simp add: np_mean_def np_sum_short float64_numeral)
  have tot: "np_mean (map (\<lambda>y. fl_square (fl_sub y (np_mean ?ys))) ?ys) = Fin 1"
    by (simp add: m) (simp add: np_mean_def np_sum_short float64_numeral fl_sub_def h)
  have res: "np_mean (map (\<lambda>(y, p). fl_square (fl_sub y p)) (zip ?ys [Fin 1, Fin 3])) = Fin 1"
    by (simp add: np_mean_def np_sum_short float64_numeral fl_sub_def h)
  have fin: "\<forall>y\<in>set ?ys. \<exists>a. y = Fin a" by simp
  have t0: "np_mean (map (\<lambda>y. fl_square (fl_sub y (np_mean ?ys))) ?ys) \<noteq> Fin 0"
    and t1: "np_mean (map (\<lambda>y. fl_square (fl_sub y (np_mean ?ys))) ?ys) \<noteq> NaN"
    and t2: "\<exists>v. np_mean (map (\<lambda>y. fl_square (fl_sub y (np_mean ?ys))) ?ys) = Fin v \<and> v \<noteq> 0"
    by (simp_all only: tot) simp_all
  have l: "length [Fin 1, Fin 3] = length ?ys" by simp
  note i = r_squared_values [of "[Fin 1, Fin 3]" ?ys]
  from i [THEN conjunct1, THEN mp, OF l]
  have a: "r_squared ?ys [Fin 1, Fin 3] = Inr (fl_sub (Fin 1) (fl_div (Fin 1) (Fin 1)))"
    by (simp only: res tot)
  from i [THEN conjunct2, THEN conjunct1, THEN mp, OF conjI [OF fin conjI [OF t0 t1]]]
  have b: "r_squared ?ys ?ys = Inr (Fin 1)" .
  from i [THEN conjunct2, THEN conjunct2, THEN conjunct1, THEN mp, OF t2]
  have c: "r_squared ?ys [Fin 1, Fin 1] = Inr (Fin 0)"
    by (simp add: m numeral_2_eq_2)
  from m tot a b c show ?thesis by (intro conjI)
qed

text \<open>
  On real numbers the labels \<open>0, 2 ^ - 600\<close> have a variance that is not zero, and R squared
  of the labels themselves is 1; their squared deviations are too small for binary64 and
  are rounded to zero, and \<open>r_squared\<close> returns not-a-number. The labels
  \<open>2 ^ 600, - 2 ^ 600\<close> have mean 0 and a variance that is not zero, and R squared of the
  predictions \<open>0, 0\<close> is 0; their squared deviations are too large for binary64, and
  \<open>r_squared\<close> returns not-a-number.
\<close>

theorem r_squared_range_counterexample:
  "variance [0, 1 / 2 ^ 600] \<noteq> 0
   \<and> r_squared_formula [0, 1 / 2 ^ 600] [0, 1 / 2 ^ 600] = 1
   \<and> r_squared [Fin 0, Fin (1 / 2 ^ 600)] [Fin 0, Fin (1 / 2 ^ 600)] = Inr NaN
   \<and> variance [2 ^ 600, - (2 ^ 600)] \<noteq> 0
   \<and> mean [2 ^ 600, - (2 ^ 600)] = 0
   \<and> np_mean [Fin (2 ^ 600), Fin (- (2 ^ 600))] = Fin 0
   \<and> r_squared_formula [2 ^ 600, - (2 ^ 600)] [0, 0] = 0
   \<and> r_squared [Fin (2 ^ 600), Fin (- (2 ^ 600))] [Fin 0, Fin 0] = Inr NaN"
proof -
  define b :: real where "b = 1 / 2 ^ 600"
  define c :: real where "c = 2 ^ 600"
  have bpos: "0 < b" by (simp add: b_def)
  have cpos: "0 < c" by (simp add: c_def)
  have mb: "mean [0, b] = b / 2" by (simp add: mean_def)
  have vb: "variance [0, b] = b * b / 4"
    by (simp add: variance_def mb) (simp add: mean_def field_simps)
  have vb0: "variance [0, b] \<noteq> 0" using bpos by (simp add: vb)
  have fb: "r_squared_formula [0, b] [0, b] = 1"
    by (simp add: r_squared_formula_def) (simp add: mean_def)
  have mc: "mean [c, - c] = 0" by (simp add: mean_def)
  have vc: "variance [c, - c] = c * c"
    by (simp add: variance_def mc) (simp add: mean_def)
  have vc0: "variance [c, - c] \<noteq> 0" using cpos by (simp add: vc)
  have fc: "r_squared_formula [c, - c] [0, 0] = 0"
    using cpos by (simp add: r_squared_formula_def vc) (simp add: mean_def)
  have b1: "float64 b = Fin b"
    using float64_dyadic [of 1 600] by (simp add: b_def)
  have b2: "float64 (b / 2) = Fin (b / 2)"
    using float64_dyadic [of 1 601] by (simp add: b_def)
  have b3: "float64 (- (b / 2)) = Fin (- (b / 2))"
    using float64_dyadic [of "- 1" 601] by (simp add: b_def)
  have b4: "float64 (b * b / 4) = Fin 0"
    by (rule float64_underflow) (simp add: b_def abs_mult)
  have c1: "float64 c = Fin c"
    using float64_scaled [of 1 600] by (simp add: c_def)
  have c2: "float64 (- c) = Fin (- c)"
    using float64_scaled [of "- 1" 600] by (simp add: c_def)
  have c3: "float64 (c * c) = PInf"
  proof -
    have "c * c = real_of_int 1 * 2 ^ 1200" by (simp add: c_def power_add [symmetric])
    with float64_scaled [of 1 1200] show ?thesis by simp
  qed
  have nb: "np_mean [Fin 0, Fin b] = Fin (b / 2)"
    by (simp add: np_mean_def np_sum_short b1 b2)
  have rb: "r_squared [Fin 0, Fin b] [Fin 0, Fin b] = Inr NaN"
    by (simp add: r_squared_eq nb fl_sub_def b2 b3 b4)
       (simp add: np_mean_def np_sum_short)
  have nc: "np_mean [Fin c, Fin (- c)] = Fin 0"
    by (simp add: np_mean_def np_sum_short c1)
  have rc: "r_squared [Fin c, Fin (- c)] [Fin 0, Fin 0] = Inr NaN"
    by (simp add: r_squared_eq nc fl_sub_def c1 c2 c3)
       (simp add: np_mean_def np_sum_short)
  from vb0 fb rb vc0 mc nc fc rc show ?thesis
    unfolding b_def c_def by (intro conjI)
qed

end
